theory Spec2Isabelle
  imports Complex_Main "HOL-Library.Multiset" "HOL-Library.Product_Lexorder"
begin

text \<open>
  A model of \<^verbatim>\<open>leontieff_model_reproducible_result.py\<close>: the class
  \<^verbatim>\<open>Leontief_Model\<close>, whose constructor builds the coefficient matrix and the
  Leontief inverse from an inter-country input-output table of 3195 sectors and whose
  method \<^verbatim>\<open>shock\<close> measures the effect of a demand or supply shock on randomly
  sampled sectors, and the class \<^verbatim>\<open>ReproducibleResult\<close>, whose method \<^verbatim>\<open>run\<close>
  repeats the experiment and collects the upper 1% quantiles.

  What the program takes from outside is a parameter of the model: the table
  \<^verbatim>\<open>pd.read_csv\<close> returns, the result of \<^verbatim>\<open>np.linalg.inv\<close>, and the raw outputs
  of the random generator. The numpy and pandas operations the program calls are
  modelled by what they compute; an exception is an error value, returned together
  with the world as the exception leaves it.
\<close>

section \<open>Numbers: float64 values with their special values\<close>

text \<open>
  The program computes on numpy/pandas float64 values. A value is modelled as a real
  number or one of the three special values of IEEE arithmetic. Rounding, overflow to
  infinity and the sign of zero are not modelled: finite results are exact, and a
  division of a nonzero finite number by zero takes the sign of the numerator.
\<close>

datatype npfloat = Fin real | PosInf | NegInf | NaN

fun scale_inf :: "bool \<Rightarrow> real \<Rightarrow> npfloat" where
  "scale_inf pos x =
     (if x = 0 then NaN else if (0 < x) = pos then PosInf else NegInf)"

instantiation npfloat :: "{zero, one, plus, uminus, minus, times, inverse}"
begin

definition zero_npfloat :: npfloat where
  "zero_npfloat = Fin 0"

definition one_npfloat :: npfloat where
  "one_npfloat = Fin 1"

fun plus_npfloat :: "npfloat \<Rightarrow> npfloat \<Rightarrow> npfloat" where
  "plus_npfloat NaN y = NaN"
| "plus_npfloat x NaN = NaN"
| "plus_npfloat (Fin a) (Fin b) = Fin (a + b)"
| "plus_npfloat (Fin a) y = y"
| "plus_npfloat x (Fin b) = x"
| "plus_npfloat PosInf PosInf = PosInf"
| "plus_npfloat NegInf NegInf = NegInf"
| "plus_npfloat PosInf NegInf = NaN"
| "plus_npfloat NegInf PosInf = NaN"

fun uminus_npfloat :: "npfloat \<Rightarrow> npfloat" where
  "uminus_npfloat (Fin a) = Fin (- a)"
| "uminus_npfloat PosInf = NegInf"
| "uminus_npfloat NegInf = PosInf"
| "uminus_npfloat NaN = NaN"

definition minus_npfloat :: "npfloat \<Rightarrow> npfloat \<Rightarrow> npfloat" where
  "minus_npfloat x y = x + (- y)"

fun times_npfloat :: "npfloat \<Rightarrow> npfloat \<Rightarrow> npfloat" where
  "times_npfloat NaN y = NaN"
| "times_npfloat x NaN = NaN"
| "times_npfloat (Fin a) (Fin b) = Fin (a * b)"
| "times_npfloat (Fin a) PosInf = scale_inf True a"
| "times_npfloat (Fin a) NegInf = scale_inf False a"
| "times_npfloat PosInf (Fin b) = scale_inf True b"
| "times_npfloat NegInf (Fin b) = scale_inf False b"
| "times_npfloat PosInf PosInf = PosInf"
| "times_npfloat NegInf NegInf = PosInf"
| "times_npfloat PosInf NegInf = NegInf"
| "times_npfloat NegInf PosInf = NegInf"

fun divide_npfloat :: "npfloat \<Rightarrow> npfloat \<Rightarrow> npfloat" where
  "divide_npfloat NaN y = NaN"
| "divide_npfloat x NaN = NaN"
| "divide_npfloat (Fin a) (Fin b) =
     (if b = 0 then (if a = 0 then NaN else if 0 < a then PosInf else NegInf)
      else Fin (a / b))"
| "divide_npfloat (Fin a) y = Fin 0"
| "divide_npfloat PosInf (Fin b) = (if 0 \<le> b then PosInf else NegInf)"
| "divide_npfloat NegInf (Fin b) = (if 0 \<le> b then NegInf else PosInf)"
| "divide_npfloat x y = NaN"

fun inverse_npfloat :: "npfloat \<Rightarrow> npfloat" where
  "inverse_npfloat (Fin b) = (if b = 0 then PosInf else Fin (1 / b))"
| "inverse_npfloat NaN = NaN"
| "inverse_npfloat x = Fin 0"

instance ..

end

text \<open>\<^verbatim>\<open>np.isnan\<close>, and the float comparison \<^verbatim>\<open>==\<close> (false on NaN).\<close>

definition np_isnan :: "npfloat \<Rightarrow> bool" where
  "np_isnan x = (x = NaN)"

definition float_eq :: "npfloat \<Rightarrow> npfloat \<Rightarrow> bool" where
  "float_eq x y = (x = y \<and> x \<noteq> NaN)"

text \<open>\<^verbatim>\<open>np.sqrt\<close>, used by \<^verbatim>\<open>np.std\<close>.\<close>

fun np_sqrt :: "npfloat \<Rightarrow> npfloat" where
  "np_sqrt (Fin a) = (if a < 0 then NaN else Fin (sqrt a))"
| "np_sqrt PosInf = PosInf"
| "np_sqrt x = NaN"

section \<open>Errors, and the mutable world\<close>

text \<open>
  The exceptions the program can raise. The source defines no exception class of its
  own: an unknown shock type fails an \<^verbatim>\<open>assert\<close>, everything else is raised by
  numpy or pandas.
\<close>

datatype error =
    AssertionError string
  | ValueError_lengths_must_match
  | ValueError_larger_sample
  | ValueError_negative_dimensions
  | ValueError_shapes
  | IndexError
  | KeyError
  | LinAlgError

text \<open>
  Arrays and Series are mutable objects, held by reference. The world holds every
  pandas Series (a vector) and every two-dimensional numpy array (a list of rows) at
  an address, which is its index in the list; a new object is appended, so its address
  is fresh. The world also holds numpy's global random generator: a stream of raw
  outputs and the number of outputs consumed so far.
\<close>

record world =
  series :: "npfloat list list"
  arrays :: "npfloat list list list"
  rng_raw :: "nat \<Rightarrow> nat"
  rng_pos :: nat

definition new_series :: "npfloat list \<Rightarrow> world \<Rightarrow> nat \<times> world" where
  "new_series v w = (length (series w), w\<lparr>series := series w @ [v]\<rparr>)"

definition new_array :: "npfloat list list \<Rightarrow> world \<Rightarrow> nat \<times> world" where
  "new_array m w = (length (arrays w), w\<lparr>arrays := arrays w @ [m]\<rparr>)"

text \<open>\<^verbatim>\<open>vector.copy()\<close>: a new Series with the same entries.\<close>

definition series_copy :: "nat \<Rightarrow> world \<Rightarrow> nat \<times> world" where
  "series_copy a w = new_series (series w ! a) w"

text \<open>\<^verbatim>\<open>v[i] = x\<close>: the Series at address \<open>a\<close> is changed in place.\<close>

definition series_setitem :: "nat \<Rightarrow> nat \<Rightarrow> npfloat \<Rightarrow> world \<Rightarrow> world" where
  "series_setitem a i x w = w\<lparr>series := (series w)[a := (series w ! a)[i := x]]\<rparr>"

section \<open>Sampling without replacement\<close>

text \<open>
  \<^verbatim>\<open>np.random.choice(a, replace=False, size=k)\<close> of numpy's legacy generator: it
  refuses a sample larger than the population and a negative size, shuffles the
  indices \<open>0 ..< len(a)\<close> (Fisher-Yates, from the last index down) and returns the
  entries of \<open>a\<close> at the first \<open>k\<close> shuffled indices. \<^verbatim>\<open>random_interval(mx)\<close> is a
  number in \<open>[0, mx]\<close>; it is modelled as the next raw output modulo \<open>mx + 1\<close>.
\<close>

definition random_interval :: "nat \<Rightarrow> world \<Rightarrow> nat \<times> world" where
  "random_interval mx w =
     (if mx = 0 then (0, w)
      else (rng_raw w (rng_pos w) mod (mx + 1), w\<lparr>rng_pos := rng_pos w + 1\<rparr>))"

definition swap :: "nat \<Rightarrow> nat \<Rightarrow> nat list \<Rightarrow> nat list" where
  "swap i j xs = xs[i := xs ! j, j := xs ! i]"

fun shuffle :: "nat \<Rightarrow> nat list \<Rightarrow> world \<Rightarrow> nat list \<times> world" where
  "shuffle 0 xs w = (xs, w)"
| "shuffle (Suc i) xs w =
     (case random_interval (Suc i) w of
        (j, w') \<Rightarrow> shuffle i (swap (Suc i) j xs) w')"

definition np_arange :: "nat \<Rightarrow> nat list" where
  "np_arange n = [0..<n]"

definition permutation :: "nat \<Rightarrow> world \<Rightarrow> nat list \<times> world" where
  "permutation n w = shuffle (n - 1) (np_arange n) w"

definition np_random_choice :: "nat list \<Rightarrow> int \<Rightarrow> world \<Rightarrow> (error + nat list) \<times> world" where
  "np_random_choice a sz w =
     (if int (length a) < sz then (Inl ValueError_larger_sample, w)
      else if sz < 0 then (Inl ValueError_negative_dimensions, w)
      else (case permutation (length a) w of
              (idx, w') \<Rightarrow> (Inr (map (\<lambda>i. a ! i) (take (nat sz) idx)), w')))"

section \<open>Vectors, matrices and statistics\<close>

text \<open>
  \<^verbatim>\<open>np.sum\<close> of a numpy array, and the sum of a pandas Series, which skips NaN
  entries (\<^verbatim>\<open>skipna=True\<close> is the default of \<^verbatim>\<open>Series.sum\<close> and
  \<^verbatim>\<open>DataFrame.sum\<close>, and \<^verbatim>\<open>np.sum\<close> of a Series calls \<^verbatim>\<open>Series.sum\<close>).
\<close>

definition np_sum :: "npfloat list \<Rightarrow> npfloat" where
  "np_sum xs = foldl (+) 0 xs"

definition pd_sum :: "npfloat list \<Rightarrow> npfloat" where
  "pd_sum xs = np_sum (filter (\<lambda>x. \<not> np_isnan x) xs)"

text \<open>
  \<^verbatim>\<open>np.divide(m, v)\<close> divides every row of \<open>m\<close> entry by entry by \<open>v\<close>;
  \<^verbatim>\<open>x - y\<close> of two matrices; \<^verbatim>\<open>np.dot(m, v)\<close>. Operands whose shapes do not
  agree raise \<^verbatim>\<open>ValueError\<close> (numpy's broadcasting of an axis of length one is not
  modelled: the constructor only reaches these operations with 3195 by 3195 operands).
\<close>

definition np_divide :: "npfloat list list \<Rightarrow> npfloat list \<Rightarrow> error + npfloat list list" where
  "np_divide m v =
     (if list_all (\<lambda>row. length row = length v) m
      then Inr (map (\<lambda>row. map2 (/) row v) m)
      else Inl ValueError_shapes)"

definition np_identity :: "nat \<Rightarrow> npfloat list list" where
  "np_identity n = map (\<lambda>i. map (\<lambda>j. if i = j then 1 else 0) [0..<n]) [0..<n]"

definition mat_sub :: "npfloat list list \<Rightarrow> npfloat list list \<Rightarrow> error + npfloat list list" where
  "mat_sub x y =
     (if length x = length y \<and> list_all2 (\<lambda>r s. length r = length s) x y
      then Inr (map2 (map2 (-)) x y)
      else Inl ValueError_shapes)"

definition np_dot :: "npfloat list list \<Rightarrow> npfloat list \<Rightarrow> error + npfloat list" where
  "np_dot m v =
     (if list_all (\<lambda>row. length row = length v) m
      then Inr (map (\<lambda>row. np_sum (map2 (*) row v)) m)
      else Inl ValueError_shapes)"

definition np_mean :: "npfloat list \<Rightarrow> npfloat" where
  "np_mean xs = np_sum xs / Fin (real (length xs))"

definition np_std :: "npfloat list \<Rightarrow> npfloat" where
  "np_std xs = (let m = np_mean xs in np_sqrt (np_mean (map (\<lambda>x. (x - m) * (x - m)) xs)))"

text \<open>
  \<^verbatim>\<open>np.quantile(xs, q)\<close> with the default method (linear interpolation between
  order statistics), as numpy 1.22 and later compute it: the values are sorted (NaN
  last), the virtual index is \<open>(n - 1) * q\<close>, and the result interpolates between the
  order statistics below and above it; a NaN among the values makes the result NaN, and
  an empty sequence raises \<^verbatim>\<open>IndexError\<close>.
\<close>

fun sort_key_float :: "npfloat \<Rightarrow> nat \<times> real" where
  "sort_key_float NegInf = (0, 0)"
| "sort_key_float (Fin a) = (1, a)"
| "sort_key_float PosInf = (2, 0)"
| "sort_key_float NaN = (3, 0)"

definition np_sort :: "npfloat list \<Rightarrow> npfloat list" where
  "np_sort xs = sort_key sort_key_float xs"

definition lerp :: "npfloat \<Rightarrow> npfloat \<Rightarrow> real \<Rightarrow> npfloat" where
  "lerp a b t = (if t < 1 / 2 then a + (b - a) * Fin t else b - (b - a) * Fin (1 - t))"

definition np_quantile :: "npfloat list \<Rightarrow> real \<Rightarrow> error + npfloat" where
  "np_quantile xs q =
     (let n = length xs in
      if n = 0 then Inl IndexError
      else
        let srt = np_sort xs;
            virt = real (n - 1) * q;
            prev = nat \<lfloor>virt\<rfloor>;
            nxt = min (prev + 1) (n - 1);
            gamma = virt - real prev
        in if np_isnan (last srt) then Inr NaN
           else Inr (lerp (srt ! prev) (srt ! nxt) gamma))"

section \<open>The Leontief model\<close>

text \<open>
  The table \<^verbatim>\<open>pd.read_csv\<close> returns: the header (the names of all columns, column 0
  first) and the rows, each with the label of column 0 and the numeric cells of columns
  1, 2, ... A DataFrame is rectangular.
\<close>

record dataframe =
  columns :: "string list"
  rows :: "(string \<times> npfloat list) list"

definition rectangular :: "dataframe \<Rightarrow> bool" where
  "rectangular df = list_all (\<lambda>r. Suc (length (snd r)) = length (columns df)) (rows df)"

text \<open>
  The fields of a \<^verbatim>\<open>Leontief_Model\<close> object that \<^verbatim>\<open>shock\<close> reads: the arrays and
  Series by their addresses in the world, the two sums as numbers. The field
  \<^verbatim>\<open>output\<close> of the source is \<open>output_series\<close> here.
\<close>

record Leontief_Model =
  io_matrix :: nat
  demand :: nat
  output_series :: nat
  A :: nat
  I_minus_A :: nat
  leontief_inverse :: nat
  total_output :: npfloat
  total_final_demand :: npfloat

text \<open>\<^verbatim>\<open>self.A[np.isnan(self.A)] = 0\<close>: the array at the address is changed in place.\<close>

definition nan_to_zero :: "npfloat \<Rightarrow> npfloat" where
  "nan_to_zero x = (if np_isnan x then 0 else x)"

definition array_nan_to_zero :: "nat \<Rightarrow> world \<Rightarrow> world" where
  "array_nan_to_zero a w = w\<lparr>arrays := (arrays w)[a := map (map nan_to_zero) (arrays w ! a)]\<rparr>"

text \<open>
  The constructor, on the table read from the file. \<^verbatim>\<open>np.linalg.inv\<close> is library
  code and a parameter here: \<open>None\<close> is its \<^verbatim>\<open>LinAlgError\<close>. Column \<open>c\<close> of the file is
  cell \<open>c - 1\<close> of a row.
\<close>

definition Leontief_Model_init ::
  "(npfloat list list \<Rightarrow> npfloat list list option) \<Rightarrow> dataframe \<Rightarrow> world
     \<Rightarrow> (error + Leontief_Model) \<times> world" where
  "Leontief_Model_init linalg_inv df w =
     (let labels = map fst (take 3195 (rows df));
          names = take 3195 (drop 1 (columns df))
      in
      if length labels \<noteq> length names then (Inl ValueError_lengths_must_match, w)
      else if labels \<noteq> names then (Inl (AssertionError []), w)
      else
        let (io_a, w1) = new_array (map (\<lambda>r. take 3195 (snd r)) (take 3195 (rows df))) w;
            (dem_a, w2) =
               new_series (map (\<lambda>r. pd_sum (take 402 (drop 3195 (snd r)))) (take 3195 (rows df))) w1
        in
        if length (columns df) \<le> 3598 then (Inl IndexError, w2)
        else
          let (out_a, w3) = new_series (map (\<lambda>r. snd r ! 3597) (take 3195 (rows df))) w2 in
          case np_divide (arrays w3 ! io_a) (series w3 ! out_a) of
            Inl e \<Rightarrow> (Inl e, w3)
          | Inr q \<Rightarrow>
              let (A_a, w4) = new_array q w3;
                  w5 = array_nan_to_zero A_a w4
              in
              case mat_sub (np_identity 3195) (arrays w5 ! A_a) of
                Inl e \<Rightarrow> (Inl e, w5)
              | Inr d \<Rightarrow>
                  let (IA_a, w6) = new_array d w5 in
                  case linalg_inv (arrays w6 ! IA_a) of
                    None \<Rightarrow> (Inl LinAlgError, w6)
                  | Some li \<Rightarrow>
                      let (L_a, w7) = new_array li w6 in
                      (Inr \<lparr>io_matrix = io_a, demand = dem_a, output_series = out_a, A = A_a,
                            I_minus_A = IA_a, leontief_inverse = L_a,
                            total_output = pd_sum (series w7 ! out_a),
                            total_final_demand = pd_sum (series w7 ! dem_a)\<rparr>, w7))"

section \<open>The shock experiment\<close>

record result_dict =
  Shock_effect_data :: "npfloat list"
  Average :: npfloat
  Standard_deviation :: npfloat
  Median :: npfloat
  Upper_5_quantile :: npfloat
  Upper_1_quantile :: npfloat

text \<open>
  The loop over the sampled sectors. \<open>matrix\<close> and \<open>vector\<close> are the addresses of the
  selected array and Series; \<open>shock_effects\<close> is the list built so far.
\<close>

fun shock_loop ::
  "nat \<Rightarrow> nat \<Rightarrow> npfloat \<Rightarrow> npfloat \<Rightarrow> nat list \<Rightarrow> npfloat list \<Rightarrow> world
     \<Rightarrow> (error + npfloat list) \<times> world" where
  "shock_loop matrix vector benchmark shock_size [] shock_effects w = (Inr shock_effects, w)"
| "shock_loop matrix vector benchmark shock_size (sec # sectors) shock_effects w =
     (case series_copy vector w of
        (mod_vector, w1) \<Rightarrow>
          if length (series w1 ! mod_vector) \<le> sec then (Inl KeyError, w1)
          else
            let w2 = series_setitem mod_vector sec
                       ((series w1 ! mod_vector ! sec) * (1 - shock_size)) w1
            in
            case np_dot (arrays w2 ! matrix) (series w2 ! mod_vector) of
              Inl e \<Rightarrow> (Inl e, w2)
            | Inr result \<Rightarrow>
                let effect = 1 - np_sum result / benchmark in
                shock_loop matrix vector benchmark shock_size sectors
                  (shock_effects @ [effect]) w2)"

definition statistics :: "npfloat list \<Rightarrow> error + result_dict" where
  "statistics shock_effects =
     (let average = np_mean shock_effects;
          standard_deviation = np_std shock_effects
      in
      case np_quantile shock_effects (1 / 2) of
        Inl e \<Rightarrow> Inl e
      | Inr median \<Rightarrow>
          (case np_quantile shock_effects (95 / 100) of
             Inl e \<Rightarrow> Inl e
           | Inr upper_5 \<Rightarrow>
               (case np_quantile shock_effects (99 / 100) of
                  Inl e \<Rightarrow> Inl e
                | Inr upper_1 \<Rightarrow>
                    Inr \<lparr>Shock_effect_data = shock_effects, Average = average,
                         Standard_deviation = standard_deviation, Median = median,
                         Upper_5_quantile = upper_5, Upper_1_quantile = upper_1\<rparr>)))"

text \<open>The experiment after the shock type is parsed: sample, loop, statistics.\<close>

definition shock_experiment ::
  "nat \<Rightarrow> nat \<Rightarrow> npfloat \<Rightarrow> npfloat \<Rightarrow> int \<Rightarrow> world \<Rightarrow> (error + result_dict) \<times> world" where
  "shock_experiment matrix vector benchmark shock_size sample_size w =
     (case np_random_choice (np_arange 3195) sample_size w of
        (Inl e, w1) \<Rightarrow> (Inl e, w1)
      | (Inr sectors, w1) \<Rightarrow>
          (case shock_loop matrix vector benchmark shock_size sectors [] w1 of
             (Inl e, w2) \<Rightarrow> (Inl e, w2)
           | (Inr shock_effects, w2) \<Rightarrow> (statistics shock_effects, w2)))"

definition shock ::
  "Leontief_Model \<Rightarrow> string \<Rightarrow> npfloat \<Rightarrow> int \<Rightarrow> world \<Rightarrow> (error + result_dict) \<times> world" where
  "shock self shock_type shock_size sample_size w =
     (if shock_type = ''Demand'' then
        shock_experiment (leontief_inverse self) (demand self) (total_output self)
          shock_size sample_size w
      else if shock_type = ''Supply'' then
        shock_experiment (I_minus_A self) (output_series self) (total_final_demand self)
          shock_size sample_size w
      else (Inl (AssertionError (''Unknown shock type '' @ shock_type)), w))"

section \<open>The replications\<close>

record ReproducibleResult =
  number_of_replications :: int
  shock_sizes :: "npfloat list"
  return_result :: "string \<rightharpoonup> npfloat list"

definition ReproducibleResult_init :: "int \<Rightarrow> ReproducibleResult" where
  "ReproducibleResult_init n =
     \<lparr>number_of_replications = n,
      shock_sizes = [Fin (3 / 10), Fin (7 / 10), Fin 1],
      return_result = [''for_30%_shock_size'' \<mapsto> [], ''for_70%_shock_size'' \<mapsto> [],
                       ''for_100%_shock_size'' \<mapsto> []]\<rparr>"

text \<open>\<^verbatim>\<open>xs[i]\<close> of a Python list, and \<^verbatim>\<open>d[k].append(v)\<close> of a dict of lists.\<close>

definition list_get :: "'a list \<Rightarrow> nat \<Rightarrow> error + 'a" where
  "list_get xs i = (if i < length xs then Inr (xs ! i) else Inl IndexError)"

definition dict_append ::
  "string \<Rightarrow> npfloat \<Rightarrow> (string \<rightharpoonup> npfloat list) \<Rightarrow> error + (string \<rightharpoonup> npfloat list)" where
  "dict_append k v d = (case d k of None \<Rightarrow> Inl KeyError | Some vs \<Rightarrow> Inr (d(k \<mapsto> vs @ [v])))"

definition record_result ::
  "string \<Rightarrow> npfloat \<Rightarrow> ReproducibleResult \<Rightarrow> world \<Rightarrow> error option \<times> ReproducibleResult \<times> world" where
  "record_result k v self w =
     (case dict_append k v (return_result self) of
        Inl e \<Rightarrow> (Some e, self, w)
      | Inr d \<Rightarrow> (None, self\<lparr>return_result := d\<rparr>, w))"

text \<open>
  The body of the inner loop of \<^verbatim>\<open>run\<close>: a new model from the file, one experiment
  with the defaults (\<^verbatim>\<open>"Demand"\<close>, sample size 300), and the upper 1% quantile
  appended under the key of the shock size. An exception leaves the object as it is.
\<close>

definition run_body ::
  "(npfloat list list \<Rightarrow> npfloat list list option) \<Rightarrow> dataframe \<Rightarrow> npfloat
     \<Rightarrow> ReproducibleResult \<Rightarrow> world \<Rightarrow> error option \<times> ReproducibleResult \<times> world" where
  "run_body linalg_inv df shock_size self w =
     (case Leontief_Model_init linalg_inv df w of
        (Inl e, w1) \<Rightarrow> (Some e, self, w1)
      | (Inr L, w1) \<Rightarrow>
          (case shock L ''Demand'' shock_size 300 w1 of
             (Inl e, w2) \<Rightarrow> (Some e, self, w2)
           | (Inr demand_shock_effects, w2) \<Rightarrow>
               (case list_get (shock_sizes self) 0 of
                  Inl e \<Rightarrow> (Some e, self, w2)
                | Inr s0 \<Rightarrow>
                    if float_eq shock_size s0 then
                      record_result ''for_30%_shock_size''
                        (Upper_1_quantile demand_shock_effects) self w2
                    else
                      (case list_get (shock_sizes self) 1 of
                         Inl e \<Rightarrow> (Some e, self, w2)
                       | Inr s1 \<Rightarrow>
                           if float_eq shock_size s1 then
                             record_result ''for_70%_shock_size''
                               (Upper_1_quantile demand_shock_effects) self w2
                           else
                             record_result ''for_100%_shock_size''
                               (Upper_1_quantile demand_shock_effects) self w2))))"

fun run_replications ::
  "(npfloat list list \<Rightarrow> npfloat list list option) \<Rightarrow> dataframe \<Rightarrow> npfloat \<Rightarrow> nat
     \<Rightarrow> ReproducibleResult \<Rightarrow> world \<Rightarrow> error option \<times> ReproducibleResult \<times> world" where
  "run_replications linalg_inv df shock_size 0 self w = (None, self, w)"
| "run_replications linalg_inv df shock_size (Suc k) self w =
     (case run_body linalg_inv df shock_size self w of
        (Some e, self', w') \<Rightarrow> (Some e, self', w')
      | (None, self', w') \<Rightarrow> run_replications linalg_inv df shock_size k self' w')"

fun run_sizes ::
  "(npfloat list list \<Rightarrow> npfloat list list option) \<Rightarrow> dataframe \<Rightarrow> npfloat list
     \<Rightarrow> ReproducibleResult \<Rightarrow> world \<Rightarrow> error option \<times> ReproducibleResult \<times> world" where
  "run_sizes linalg_inv df [] self w = (None, self, w)"
| "run_sizes linalg_inv df (shock_size # rest) self w =
     (case run_replications linalg_inv df shock_size (nat (number_of_replications self)) self w of
        (Some e, self', w') \<Rightarrow> (Some e, self', w')
      | (None, self', w') \<Rightarrow> run_sizes linalg_inv df rest self' w')"

definition run ::
  "(npfloat list list \<Rightarrow> npfloat list list option) \<Rightarrow> dataframe \<Rightarrow> ReproducibleResult \<Rightarrow> world
     \<Rightarrow> (error + (string \<rightharpoonup> npfloat list)) \<times> ReproducibleResult \<times> world" where
  "run linalg_inv df self w =
     (case run_sizes linalg_inv df (shock_sizes self) self w of
        (Some e, self', w') \<Rightarrow> (Inl e, self', w')
      | (None, self', w') \<Rightarrow> (Inr (return_result self'), self', w'))"

section \<open>The quantities the claims speak of\<close>

text \<open>
  The parts of the table the constructor extracts (rows 0 to 3194; columns 1 to 3195,
  3196 to 3597 and 3598), under the names the specification gives them.
\<close>

definition FlowMatrix :: "dataframe \<Rightarrow> npfloat list list" where
  "FlowMatrix df = map (\<lambda>r. take 3195 (snd r)) (take 3195 (rows df))"

definition FinalDemand :: "dataframe \<Rightarrow> npfloat list" where
  "FinalDemand df = map (\<lambda>r. pd_sum (take 402 (drop 3195 (snd r)))) (take 3195 (rows df))"

definition TotalOutput :: "dataframe \<Rightarrow> npfloat list" where
  "TotalOutput df = map (\<lambda>r. snd r ! 3597) (take 3195 (rows df))"

text \<open>
  The specification's words for one effect: the matrix-vector product written with
  indices, the copy of the vector with entry \<open>s\<close> multiplied by \<open>1 - shockSize\<close>, and
  \<open>1 - sum(matrix \<cdot> v) / benchmark\<close>.
\<close>

definition mat_vec :: "npfloat list list \<Rightarrow> npfloat list \<Rightarrow> npfloat list" where
  "mat_vec m v = map (\<lambda>i. np_sum (map (\<lambda>j. m ! i ! j * v ! j) [0..<length v])) [0..<length m]"

definition shocked_vector :: "npfloat list \<Rightarrow> npfloat \<Rightarrow> nat \<Rightarrow> npfloat list" where
  "shocked_vector v shock_size s = v[s := v ! s * (1 - shock_size)]"

definition spec_effect ::
  "npfloat list list \<Rightarrow> npfloat list \<Rightarrow> npfloat \<Rightarrow> npfloat \<Rightarrow> nat \<Rightarrow> npfloat" where
  "spec_effect m v benchmark shock_size s =
     1 - np_sum (mat_vec m (shocked_vector v shock_size s)) / benchmark"

text \<open>The effect of no shock at all: \<open>1 - sum(matrix \<cdot> vector) / benchmark\<close>.\<close>

definition baseline_effect :: "npfloat list list \<Rightarrow> npfloat list \<Rightarrow> npfloat \<Rightarrow> npfloat" where
  "baseline_effect m v benchmark = 1 - np_sum (mat_vec m v) / benchmark"

text \<open>Linear interpolation in a sorted list of reals at the virtual index \<open>v\<close>.\<close>

definition interp :: "real list \<Rightarrow> real \<Rightarrow> real" where
  "interp s v =
     (let p = nat \<lfloor>v\<rfloor>; nx = min (p + 1) (length s - 1)
      in s ! p + (s ! nx - s ! p) * (v - real p))"

text \<open>The float comparison \<^verbatim>\<open><=\<close>: false when either side is NaN.\<close>

fun float_le :: "npfloat \<Rightarrow> npfloat \<Rightarrow> bool" where
  "float_le NaN y = False"
| "float_le x NaN = False"
| "float_le NegInf y = True"
| "float_le x PosInf = True"
| "float_le (Fin a) (Fin b) = (a \<le> b)"
| "float_le x y = False"

text \<open>The addresses of a model's arrays and Series are objects of the world.\<close>

definition model_in_world :: "Leontief_Model \<Rightarrow> world \<Rightarrow> bool" where
  "model_in_world self w =
     (demand self < length (series w) \<and> output_series self < length (series w)
      \<and> io_matrix self < length (arrays w) \<and> A self < length (arrays w)
      \<and> I_minus_A self < length (arrays w) \<and> leontief_inverse self < length (arrays w))"

definition CoefficientMatrix :: "dataframe \<Rightarrow> npfloat list list" where
  "CoefficientMatrix df =
     map (\<lambda>i. map (\<lambda>j. nan_to_zero (FlowMatrix df ! i ! j / TotalOutput df ! j)) [0..<3195])
       [0..<3195]"

definition Identity_minus_A :: "dataframe \<Rightarrow> npfloat list list" where
  "Identity_minus_A df =
     map (\<lambda>i. map (\<lambda>j. (if i = j then 1 else 0) - CoefficientMatrix df ! i ! j) [0..<3195])
       [0..<3195]"

definition well_formed_table :: "dataframe \<Rightarrow> bool" where
  "well_formed_table df =
     (rectangular df \<and> 3598 < length (columns df)
      \<and> map fst (take 3195 (rows df)) = take 3195 (drop 1 (columns df)))"

section \<open>Replications in the specification's words\<close>

text \<open>
  One replication in the specification's words: a new model, one experiment with the
  default shock type and sample size, and its 99th-percentile statistic; and \<open>n\<close>
  replications one after the other, their statistics in replication order.
\<close>

definition trial ::
  "(npfloat list list \<Rightarrow> npfloat list list option) \<Rightarrow> dataframe \<Rightarrow> npfloat \<Rightarrow> world
     \<Rightarrow> (error + npfloat) \<times> world" where
  "trial linalg_inv df shock_size w =
     (case Leontief_Model_init linalg_inv df w of
        (Inl e, w1) \<Rightarrow> (Inl e, w1)
      | (Inr L, w1) \<Rightarrow>
          (case shock L ''Demand'' shock_size 300 w1 of
             (Inl e, w2) \<Rightarrow> (Inl e, w2)
           | (Inr res, w2) \<Rightarrow> (Inr (Upper_1_quantile res), w2)))"

fun trials ::
  "(npfloat list list \<Rightarrow> npfloat list list option) \<Rightarrow> dataframe \<Rightarrow> npfloat \<Rightarrow> nat \<Rightarrow> world
     \<Rightarrow> (error + npfloat list) \<times> world" where
  "trials linalg_inv df shock_size 0 w = (Inr [], w)"
| "trials linalg_inv df shock_size (Suc n) w =
     (case trial linalg_inv df shock_size w of
        (Inl e, w1) \<Rightarrow> (Inl e, w1)
      | (Inr v, w1) \<Rightarrow>
          (case trials linalg_inv df shock_size n w1 of
             (Inl e, w2) \<Rightarrow> (Inl e, w2)
           | (Inr vs, w2) \<Rightarrow> (Inr (v # vs), w2)))"

text \<open>The key under which \<^verbatim>\<open>run\<close> records a shock size.\<close>

definition result_key :: "npfloat list \<Rightarrow> npfloat \<Rightarrow> string" where
  "result_key sizes shock_size =
     (if float_eq shock_size (sizes ! 0) then ''for_30%_shock_size''
      else if float_eq shock_size (sizes ! 1) then ''for_70%_shock_size''
      else ''for_100%_shock_size'')"

text \<open>\<open>k\<close> calls of \<^verbatim>\<open>run\<close> on the same object, one after the other.\<close>

fun run_times ::
  "(npfloat list list \<Rightarrow> npfloat list list option) \<Rightarrow> dataframe \<Rightarrow> nat
     \<Rightarrow> ReproducibleResult \<Rightarrow> world \<Rightarrow> error option \<times> ReproducibleResult \<times> world" where
  "run_times linalg_inv df 0 self w = (None, self, w)"
| "run_times linalg_inv df (Suc k) self w =
     (case run linalg_inv df self w of
        (Inl e, self', w') \<Rightarrow> (Some e, self', w')
      | (Inr ret, self', w') \<Rightarrow> run_times linalg_inv df k self' w')"

text \<open>
  An object as the constructor makes it and \<^verbatim>\<open>run\<close> keeps it: the three shock sizes,
  and \<open>m\<close> values under each of the three keys.
\<close>

definition holds_results :: "ReproducibleResult \<Rightarrow> nat \<Rightarrow> bool" where
  "holds_results self m =
     (shock_sizes self = [Fin (3 / 10), Fin (7 / 10), Fin 1]
      \<and> (\<exists>a b c. return_result self ''for_30%_shock_size'' = Some a
            \<and> return_result self ''for_70%_shock_size'' = Some b
            \<and> return_result self ''for_100%_shock_size'' = Some c
            \<and> length a = m \<and> length b = m \<and> length c = m))"

section \<open>A table for examples\<close>

text \<open>
  A table of the shape the constructor reads: the sectors \<open>S0\<close>, ..., \<open>S3194\<close> label
  the 3195 rows and the columns 1 to 3195, then come 402 final-demand columns and the
  column of total output. Every intermediate flow is \<open>f\<close>, every final-demand cell is
  \<open>d\<close> and every total output is \<open>x\<close>. The world \<open>world0\<close> has no objects yet.
\<close>

fun digits :: "nat \<Rightarrow> string" where
  "digits n =
     (if n < 10 then [char_of (48 + n)] else digits (n div 10) @ [char_of (48 + n mod 10)])"

definition sector_label :: "nat \<Rightarrow> string" where
  "sector_label i = CHR ''S'' # digits i"

definition toy_table :: "real \<Rightarrow> real \<Rightarrow> real \<Rightarrow> dataframe" where
  "toy_table f d x =
     \<lparr>columns = ''V1'' # map sector_label [0..<3195]
                  @ map (\<lambda>j. ''FD'' @ digits j) [0..<402] @ [''TOTAL''],
      rows = map (\<lambda>i. (sector_label i,
                        replicate 3195 (Fin f) @ replicate 402 (Fin d) @ [Fin x])) [0..<3195]\<rparr>"

definition world0 :: world where
  "world0 = \<lparr>series = [], arrays = [], rng_raw = (\<lambda>i. 7 * i + 3), rng_pos = 0\<rparr>"

text \<open>
  Two stand-ins for \<^verbatim>\<open>np.linalg.inv\<close>. In the table with every flow 1, final demand
  3195 and total output 6390 per sector, every coefficient is \<open>c = 1/6390\<close> and
  Identity - A is \<open>I - cJ\<close> (\<open>J\<close> the matrix of ones); its inverse is \<open>I + J/3195\<close>, as
  \<open>(I - cJ)(I + kJ) = I + (k - c - 3195ck)J\<close>. On a matrix with infinite entries the
  routine reports no error and returns a matrix of NaN.
\<close>

definition uniform_inverse :: "npfloat list list \<Rightarrow> npfloat list list option" where
  "uniform_inverse m =
     Some (map (\<lambda>i. map (\<lambda>j. Fin ((if i = j then 1 else 0) + 1 / 3195)) [0..<3195]) [0..<3195])"

definition nan_inverse :: "npfloat list list \<Rightarrow> npfloat list list option" where
  "nan_inverse m = Some (map (map (\<lambda>x. NaN)) m)"

section \<open>Properties of the sampling\<close>

lemma random_interval_le: "fst (random_interval mx w) \<le> mx"
  by (simp add: random_interval_def)

lemma mset_swap_list: "i < length xs \<Longrightarrow> j < length xs \<Longrightarrow> mset (swap i j xs) = mset xs"
  unfolding swap_def by (rule mset_swap)

lemma mset_shuffle: "i < length xs \<or> i = 0 \<Longrightarrow> mset (fst (shuffle i xs w)) = mset xs"
proof (induction i arbitrary: xs w)
  case 0
  then show ?case by simp
next
  case (Suc i)
  obtain j w' where r: "random_interval (Suc i) w = (j, w')"
    by (cases "random_interval (Suc i) w")
  have "j \<le> Suc i"
    using random_interval_le [of "Suc i" w] r by simp
  with Suc.prems have sw: "mset (swap (Suc i) j xs) = mset xs"
    by (intro mset_swap_list) auto
  have "length (swap (Suc i) j xs) = length xs"
    by (simp add: swap_def)
  with Suc.prems have "mset (fst (shuffle i (swap (Suc i) j xs) w')) = mset (swap (Suc i) j xs)"
    by (intro Suc.IH) auto
  with sw r show ?case by simp
qed

lemma mset_permutation: "mset (fst (permutation n w)) = mset [0..<n]"
  unfolding permutation_def np_arange_def
  by (rule mset_shuffle) (cases n; simp)

lemma permutation_props:
  "distinct (fst (permutation n w))" "set (fst (permutation n w)) = {0..<n}"
  "length (fst (permutation n w)) = n"
proof -
  have m: "mset (fst (permutation n w)) = mset [0..<n]"
    by (rule mset_permutation)
  show "distinct (fst (permutation n w))"
    using mset_eq_imp_distinct_iff [OF m] by simp
  show "set (fst (permutation n w)) = {0..<n}"
    using mset_eq_setD [OF m] by simp
  show "length (fst (permutation n w)) = n"
    using mset_eq_length [OF m] by simp
qed

lemma shuffle_world: "snd (shuffle i xs w) = w\<lparr>rng_pos := rng_pos w + i\<rparr>"
  by (induction i arbitrary: xs w) (simp_all add: random_interval_def)

lemma permutation_world: "snd (permutation n w) = w\<lparr>rng_pos := rng_pos w + (n - 1)\<rparr>"
  by (simp add: permutation_def shuffle_world)

lemma np_random_choice_ok:
  assumes "0 \<le> k" "k \<le> int n"
  shows "np_random_choice (np_arange n) k w =
           (Inr (take (nat k) (fst (permutation n w))), w\<lparr>rng_pos := rng_pos w + (n - 1)\<rparr>)"
proof -
  obtain idx w1 where pw: "permutation n w = (idx, w1)"
    by (cases "permutation n w")
  have w1: "w1 = w\<lparr>rng_pos := rng_pos w + (n - 1)\<rparr>"
    using permutation_world [of n w] pw by simp
  have "set idx = {0..<n}"
    using permutation_props(2) [of n w] pw by simp
  then have in_range: "\<forall>i \<in> set (take (nat k) idx). i < n"
    by (auto dest: in_set_takeD)
  have "map (\<lambda>i. np_arange n ! i) (take (nat k) idx) = map (\<lambda>i. i) (take (nat k) idx)"
    by (rule map_cong) (use in_range in \<open>auto simp: np_arange_def\<close>)
  then have m: "map (\<lambda>i. np_arange n ! i) (take (nat k) idx) = take (nat k) idx"
    by simp
  have len: "length (np_arange n) = n"
    by (simp add: np_arange_def)
  show ?thesis
    unfolding np_random_choice_def len using assms m by (simp add: pw w1)
qed

section \<open>The shock loop\<close>

lemma map2_nth: "length xs = length ys \<Longrightarrow> map2 f xs ys = map (\<lambda>j. f (xs ! j) (ys ! j)) [0..<length ys]"
  by (rule nth_equalityI) simp_all

lemma np_dot_mat_vec: "np_dot m v = Inr r \<Longrightarrow> r = mat_vec m v"
  unfolding np_dot_def mat_vec_def
  by (auto simp: list_all_iff map2_nth split: if_splits intro!: nth_equalityI)

lemma shock_loop_frame:
  "shock_loop matrix vector b ss secs effs w = (r, w') \<Longrightarrow>
     take (length (series w)) (series w') = series w \<and> arrays w' = arrays w
     \<and> rng_raw w' = rng_raw w \<and> rng_pos w' = rng_pos w \<and> length (series w) \<le> length (series w')"
proof (induction secs arbitrary: effs w)
  case Nil
  then show ?case by simp
next
  case (Cons sec secs)
  let ?n = "length (series w)"
  let ?w1 = "w\<lparr>series := series w @ [series w ! vector]\<rparr>"
  let ?w2 = "series_setitem ?n sec ((series ?w1 ! ?n ! sec) * (1 - ss)) ?w1"
  have w2: "take ?n (series ?w2) = series w" "arrays ?w2 = arrays w" "rng_raw ?w2 = rng_raw w"
    "rng_pos ?w2 = rng_pos w" "length (series ?w2) = Suc ?n"
    by (simp_all add: series_setitem_def)
  show ?case
  proof (cases "length (series ?w1 ! ?n) \<le> sec")
    case True
    with Cons.prems show ?thesis
      by (auto simp: series_copy_def new_series_def)
  next
    case False
    show ?thesis
    proof (cases "np_dot (arrays ?w2 ! matrix) (series ?w2 ! ?n)")
      case (Inl e)
      with False Cons.prems w2 show ?thesis
        by (auto simp: series_copy_def new_series_def Let_def)
    next
      case (Inr res)
      with False Cons.prems
      have "shock_loop matrix vector b ss secs (effs @ [1 - np_sum res / b]) ?w2 = (r, w')"
        by (simp add: series_copy_def new_series_def Let_def)
      from Cons.IH [OF this] w2
      have ih: "take (Suc ?n) (series w') = series ?w2" "arrays w' = arrays w"
        "rng_raw w' = rng_raw w" "rng_pos w' = rng_pos w" "Suc ?n \<le> length (series w')"
        by simp_all
      have "take ?n (series w') = take ?n (take (Suc ?n) (series w'))"
        by simp
      also have "\<dots> = series w"
        using ih(1) w2(1) by simp
      finally show ?thesis using ih by simp
    qed
  qed
qed

lemma shock_loop_effects:
  assumes "vector < length (series w)"
    and "shock_loop matrix vector b ss secs effs w = (Inr res, w')"
  shows "res = effs @ map (spec_effect (arrays w ! matrix) (series w ! vector) b ss) secs"
  using assms
proof (induction secs arbitrary: effs w)
  case Nil
  then show ?case by simp
next
  case (Cons sec secs)
  let ?n = "length (series w)"
  let ?v = "series w ! vector"
  let ?w1 = "w\<lparr>series := series w @ [?v]\<rparr>"
  let ?w2 = "series_setitem ?n sec ((series ?w1 ! ?n ! sec) * (1 - ss)) ?w1"
  have w2: "series ?w2 ! ?n = shocked_vector ?v ss sec" "arrays ?w2 = arrays w"
    "series ?w2 ! vector = ?v" "vector < length (series ?w2)"
    using Cons.prems(1) by (simp_all add: series_setitem_def shocked_vector_def nth_append)
  from Cons.prems(2) have nk: "\<not> length (series ?w1 ! ?n) \<le> sec"
    by (auto simp: series_copy_def new_series_def split: if_splits)
  from Cons.prems(2) nk obtain result where
    d: "np_dot (arrays ?w2 ! matrix) (series ?w2 ! ?n) = Inr result"
    and rec: "shock_loop matrix vector b ss secs (effs @ [1 - np_sum result / b]) ?w2 = (Inr res, w')"
    by (auto simp: series_copy_def new_series_def Let_def split: sum.splits)
  from d w2 have "result = mat_vec (arrays w ! matrix) (shocked_vector ?v ss sec)"
    by (simp add: np_dot_mat_vec)
  then have e: "1 - np_sum result / b = spec_effect (arrays w ! matrix) ?v b ss sec"
    by (simp add: spec_effect_def)
  from Cons.IH [OF w2(4) rec] w2 e show ?case by simp
qed

section \<open>The constructor\<close>

lemma init_result:
  assumes "Leontief_Model_init linalg_inv df w = (Inr self, w')"
  shows "\<exists>q d li. np_divide (FlowMatrix df) (TotalOutput df) = Inr q
           \<and> mat_sub (np_identity 3195) (map (map nan_to_zero) q) = Inr d
           \<and> linalg_inv d = Some li
           \<and> arrays w' = arrays w @ [FlowMatrix df, map (map nan_to_zero) q, d, li]
           \<and> series w' = series w @ [FinalDemand df, TotalOutput df]
           \<and> rng_raw w' = rng_raw w \<and> rng_pos w' = rng_pos w
           \<and> self = \<lparr>io_matrix = length (arrays w), demand = length (series w),
                      output_series = Suc (length (series w)), A = Suc (length (arrays w)),
                      I_minus_A = Suc (Suc (length (arrays w))),
                      leontief_inverse = Suc (Suc (Suc (length (arrays w)))),
                      total_output = pd_sum (TotalOutput df),
                      total_final_demand = pd_sum (FinalDemand df)\<rparr>"
  using assms
  unfolding Leontief_Model_init_def FlowMatrix_def FinalDemand_def TotalOutput_def
  by (auto simp: Let_def new_array_def new_series_def array_nan_to_zero_def nth_append list_update_append
           split: if_splits sum.splits option.splits)

section \<open>The experiment\<close>

lemma np_random_choice_world:
  assumes "np_random_choice a k w = (r, w')"
  shows "series w' = series w \<and> arrays w' = arrays w \<and> rng_raw w' = rng_raw w"
proof -
  obtain idx w1 where pw: "permutation (length a) w = (idx, w1)"
    by (cases "permutation (length a) w")
  then have "w1 = w\<lparr>rng_pos := rng_pos w + (length a - 1)\<rparr>"
    using permutation_world [of "length a" w] by simp
  with assms pw show ?thesis
    by (auto simp: np_random_choice_def split: if_splits)
qed

lemma statistics_data: "statistics effs = Inr res \<Longrightarrow> Shock_effect_data res = effs"
  by (auto simp: statistics_def Let_def split: sum.splits)

lemma shock_experiment_frame:
  assumes "shock_experiment matrix vector b ss k w = (r, w')"
  shows "take (length (series w)) (series w') = series w \<and> arrays w' = arrays w
           \<and> rng_raw w' = rng_raw w"
proof -
  obtain c w1 where c: "np_random_choice (np_arange 3195) k w = (c, w1)"
    by (cases "np_random_choice (np_arange 3195) k w")
  note cw = np_random_choice_world [OF c]
  show ?thesis
  proof (cases c)
    case (Inl e)
    with assms c cw show ?thesis by (simp add: shock_experiment_def)
  next
    case (Inr sectors)
    obtain l w2 where l: "shock_loop matrix vector b ss sectors [] w1 = (l, w2)"
      by (cases "shock_loop matrix vector b ss sectors [] w1")
    from assms c Inr l have "w' = w2"
      by (auto simp: shock_experiment_def split: sum.splits)
    with shock_loop_frame [OF l] cw show ?thesis by simp
  qed
qed

lemma shock_experiment_effects:
  assumes "vector < length (series w)"
    and "shock_experiment matrix vector b ss k w = (Inr res, w')"
  shows "\<exists>sectors w1. np_random_choice (np_arange 3195) k w = (Inr sectors, w1)
           \<and> Shock_effect_data res =
               map (spec_effect (arrays w ! matrix) (series w ! vector) b ss) sectors"
proof -
  from assms(2) obtain sectors w1 effs w2 where
    c: "np_random_choice (np_arange 3195) k w = (Inr sectors, w1)"
    and l: "shock_loop matrix vector b ss sectors [] w1 = (Inr effs, w2)"
    and s: "statistics effs = Inr res"
    by (auto simp: shock_experiment_def split: sum.splits prod.splits)
  note cw = np_random_choice_world [OF c]
  from assms(1) cw have "vector < length (series w1)" by simp
  from shock_loop_effects [OF this l] cw
  have "effs = map (spec_effect (arrays w ! matrix) (series w ! vector) b ss) sectors"
    by simp
  with c statistics_data [OF s] show ?thesis by simp
qed

lemma quantile_empty: "np_quantile [] q = Inl IndexError"
  by (simp add: np_quantile_def)

lemma shock_experiment_zero:
  "shock_experiment matrix vector b ss 0 w = (Inl IndexError, w\<lparr>rng_pos := rng_pos w + 3194\<rparr>)"
proof -
  have "np_random_choice (np_arange 3195) 0 w =
          (Inr (take (nat 0) (fst (permutation 3195 w))), w\<lparr>rng_pos := rng_pos w + (3195 - 1)\<rparr>)"
    by (rule np_random_choice_ok) simp_all
  then show ?thesis
    by (simp add: shock_experiment_def statistics_def quantile_empty)
qed

section \<open>The matrices of the constructor\<close>

lemma np_divide_nan_to_zero:
  assumes "np_divide m v = Inr q" "length m = n" "length v = n"
  shows "map (map nan_to_zero) q =
           map (\<lambda>i. map (\<lambda>j. nan_to_zero (m ! i ! j / v ! j)) [0..<n]) [0..<n]"
proof -
  from assms have rows: "\<forall>row \<in> set m. length row = n"
    and q: "q = map (\<lambda>row. map2 (/) row v) m"
    by (auto simp: np_divide_def list_all_iff split: if_splits)
  show ?thesis
  proof (rule nth_equalityI)
    show "length (map (map nan_to_zero) q) =
            length (map (\<lambda>i. map (\<lambda>j. nan_to_zero (m ! i ! j / v ! j)) [0..<n]) [0..<n])"
      using q assms(2) by simp
  next
    fix i assume "i < length (map (map nan_to_zero) q)"
    then have i: "i < n" using q assms(2) by simp
    then have r: "length (m ! i) = n" using rows assms(2) by simp
    have "map nan_to_zero (map2 (/) (m ! i) v) = map (\<lambda>j. nan_to_zero (m ! i ! j / v ! j)) [0..<n]"
      using r assms(3) by (intro nth_equalityI) simp_all
    then show "map (map nan_to_zero) q ! i =
                 map (\<lambda>i. map (\<lambda>j. nan_to_zero (m ! i ! j / v ! j)) [0..<n]) [0..<n] ! i"
      using i q assms(2) by simp
  qed
qed

lemma mat_sub_identity:
  assumes "mat_sub (np_identity n) y = Inr d"
  shows "d = map (\<lambda>i. map (\<lambda>j. (if i = j then 1 else 0) - y ! i ! j) [0..<n]) [0..<n]"
proof -
  from assms have len: "length y = n"
    and rows: "list_all2 (\<lambda>r s. length r = length s) (np_identity n) y"
    and d: "d = map2 (map2 (-)) (np_identity n) y"
    by (auto simp: mat_sub_def np_identity_def split: if_splits)
  have yrow: "length (y ! i) = n" if "i < n" for i
    using list_all2_nthD [OF rows, of i] that by (simp add: np_identity_def)
  show ?thesis
  proof (rule nth_equalityI)
    show "length d = length (map (\<lambda>i. map (\<lambda>j. (if i = j then 1 else 0) - y ! i ! j) [0..<n]) [0..<n])"
      using d len by (simp add: np_identity_def)
  next
    fix i assume "i < length d"
    then have i: "i < n" using d len by (simp add: np_identity_def)
    have "map2 (-) (np_identity n ! i) (y ! i) = map (\<lambda>j. (if i = j then 1 else 0) - y ! i ! j) [0..<n]"
      using i yrow [OF i] by (intro nth_equalityI) (simp_all add: np_identity_def)
    then show "d ! i = map (\<lambda>i. map (\<lambda>j. (if i = j then 1 else 0) - y ! i ! j) [0..<n]) [0..<n] ! i"
      using i d len by (simp add: np_identity_def)
  qed
qed

lemma init_rows:
  assumes "Leontief_Model_init linalg_inv df w = (Inr self, w')"
  shows "length (take 3195 (rows df)) = 3195"
  using assms unfolding Leontief_Model_init_def
  by (auto simp: Let_def new_array_def new_series_def split: if_splits sum.splits option.splits)

lemma init_model:
  assumes "Leontief_Model_init linalg_inv df w = (Inr self, w')"
  shows "arrays w' ! io_matrix self = FlowMatrix df"
    and "arrays w' ! A self = CoefficientMatrix df"
    and "arrays w' ! I_minus_A self = Identity_minus_A df"
    and "linalg_inv (Identity_minus_A df) = Some (arrays w' ! leontief_inverse self)"
    and "series w' ! demand self = FinalDemand df"
    and "series w' ! output_series self = TotalOutput df"
    and "total_output self = pd_sum (TotalOutput df)"
    and "total_final_demand self = pd_sum (FinalDemand df)"
    and "model_in_world self w'"
proof -
  from init_result [OF assms] obtain q d li where
    q: "np_divide (FlowMatrix df) (TotalOutput df) = Inr q"
    and d: "mat_sub (np_identity 3195) (map (map nan_to_zero) q) = Inr d"
    and li: "linalg_inv d = Some li"
    and ar: "arrays w' = arrays w @ [FlowMatrix df, map (map nan_to_zero) q, d, li]"
    and se: "series w' = series w @ [FinalDemand df, TotalOutput df]"
    and self: "self = \<lparr>io_matrix = length (arrays w), demand = length (series w),
                      output_series = Suc (length (series w)), A = Suc (length (arrays w)),
                      I_minus_A = Suc (Suc (length (arrays w))),
                      leontief_inverse = Suc (Suc (Suc (length (arrays w)))),
                      total_output = pd_sum (TotalOutput df),
                      total_final_demand = pd_sum (FinalDemand df)\<rparr>"
    by blast
  have len: "length (FlowMatrix df) = 3195" "length (TotalOutput df) = 3195"
    using init_rows [OF assms] by (simp_all add: FlowMatrix_def TotalOutput_def)
  have a: "map (map nan_to_zero) q = CoefficientMatrix df"
    unfolding CoefficientMatrix_def by (rule np_divide_nan_to_zero [OF q len])
  have ia: "d = Identity_minus_A df"
    unfolding Identity_minus_A_def using mat_sub_identity [OF d] a by simp
  show "arrays w' ! io_matrix self = FlowMatrix df"
    by (simp add: ar self)
  show "arrays w' ! A self = CoefficientMatrix df"
    by (simp add: ar self nth_append a)
  show "arrays w' ! I_minus_A self = Identity_minus_A df"
    by (simp add: ar self nth_append ia)
  show "linalg_inv (Identity_minus_A df) = Some (arrays w' ! leontief_inverse self)"
    using li by (simp add: ar self nth_append ia)
  show "series w' ! demand self = FinalDemand df"
    by (simp add: se self)
  show "series w' ! output_series self = TotalOutput df"
    by (simp add: se self nth_append)
  show "total_output self = pd_sum (TotalOutput df)"
    by (simp add: self)
  show "total_final_demand self = pd_sum (FinalDemand df)"
    by (simp add: self)
  show "model_in_world self w'"
    by (simp add: model_in_world_def ar se self)
qed

lemma well_formed_shape:
  assumes "well_formed_table df"
  shows "length (FlowMatrix df) = 3195" "length (TotalOutput df) = 3195"
    "length (FinalDemand df) = 3195"
    "list_all (\<lambda>row. length row = 3195) (FlowMatrix df)"
proof -
  from assms have eq: "map fst (take 3195 (rows df)) = take 3195 (drop 1 (columns df))"
    and c: "3598 < length (columns df)"
    by (simp_all add: well_formed_table_def)
  have "length (take 3195 (rows df)) = length (map fst (take 3195 (rows df)))"
    by simp
  also have "\<dots> = length (take 3195 (drop 1 (columns df)))"
    by (simp only: eq)
  also have "\<dots> = 3195"
    using c by simp
  finally have n: "length (take 3195 (rows df)) = 3195" .
  then show "length (FlowMatrix df) = 3195" "length (TotalOutput df) = 3195"
    "length (FinalDemand df) = 3195"
    by (simp_all add: FlowMatrix_def TotalOutput_def FinalDemand_def)
  have "length (take 3195 (snd r)) = 3195" if "r \<in> set (take 3195 (rows df))" for r
  proof -
    from that have "r \<in> set (rows df)" by (rule in_set_takeD)
    with assms have "Suc (length (snd r)) = length (columns df)" "3598 < length (columns df)"
      by (auto simp: well_formed_table_def rectangular_def list_all_iff)
    then show ?thesis by simp
  qed
  then show "list_all (\<lambda>row. length row = 3195) (FlowMatrix df)"
    by (auto simp: FlowMatrix_def list_all_iff)
qed

lemma well_formed_divide:
  assumes "well_formed_table df"
  shows "\<exists>q. np_divide (FlowMatrix df) (TotalOutput df) = Inr q
           \<and> map (map nan_to_zero) q = CoefficientMatrix df"
proof -
  note sh = well_formed_shape [OF assms]
  from sh obtain q where q: "np_divide (FlowMatrix df) (TotalOutput df) = Inr q"
    by (auto simp: np_divide_def)
  have "map (map nan_to_zero) q = CoefficientMatrix df"
    unfolding CoefficientMatrix_def by (rule np_divide_nan_to_zero [OF q sh(1) sh(2)])
  with q show ?thesis by blast
qed

lemma mat_sub_coefficients:
  "mat_sub (np_identity 3195) (CoefficientMatrix df) = Inr (Identity_minus_A df)"
proof -
  have "length (np_identity 3195) = length (CoefficientMatrix df)"
    by (simp add: np_identity_def CoefficientMatrix_def)
  moreover have "list_all2 (\<lambda>r s. length r = length s) (np_identity 3195) (CoefficientMatrix df)"
    by (rule list_all2_all_nthI) (simp_all add: np_identity_def CoefficientMatrix_def)
  ultimately obtain d where d: "mat_sub (np_identity 3195) (CoefficientMatrix df) = Inr d"
    by (auto simp: mat_sub_def)
  from mat_sub_identity [OF d] have "d = Identity_minus_A df"
    by (simp add: Identity_minus_A_def)
  with d show ?thesis by simp
qed

lemma init_succeeds:
  assumes "well_formed_table df" and "linalg_inv (Identity_minus_A df) = Some li"
  shows "\<exists>self w'. Leontief_Model_init linalg_inv df w = (Inr self, w')"
proof -
  from well_formed_divide [OF assms(1)] obtain q where
    q: "np_divide (FlowMatrix df) (TotalOutput df) = Inr q"
    and a: "map (map nan_to_zero) q = CoefficientMatrix df"
    by blast
  have d: "mat_sub (np_identity 3195) (map (map nan_to_zero) q) = Inr (Identity_minus_A df)"
    using mat_sub_coefficients [of df] a by simp
  from assms(1) have c: "3598 < length (columns df)"
    "map fst (take 3195 (rows df)) = take 3195 (drop 1 (columns df))"
    by (simp_all add: well_formed_table_def)
  show ?thesis
    using q d assms(2) c
    unfolding Leontief_Model_init_def FlowMatrix_def TotalOutput_def
    by (simp add: Let_def new_array_def new_series_def array_nan_to_zero_def nth_append
          list_update_append)
qed

section \<open>The experiment returns\<close>

lemma shock_loop_succeeds:
  assumes "vector < length (series w)" and "length (series w ! vector) = n"
    and "list_all (\<lambda>row. length row = n) (arrays w ! matrix)"
    and "\<forall>s \<in> set secs. s < n"
  shows "\<exists>res w'. shock_loop matrix vector b ss secs effs w = (Inr res, w')"
  using assms
proof (induction secs arbitrary: effs w)
  case Nil
  then show ?case by simp
next
  case (Cons sec secs)
  let ?a = "length (series w)"
  let ?v = "series w ! vector"
  let ?w1 = "w\<lparr>series := series w @ [?v]\<rparr>"
  let ?w2 = "series_setitem ?a sec ((series ?w1 ! ?a ! sec) * (1 - ss)) ?w1"
  have w2: "length (series ?w2 ! ?a) = n" "arrays ?w2 = arrays w"
    "series ?w2 ! vector = ?v" "vector < length (series ?w2)"
    using Cons.prems(1,2) by (simp_all add: series_setitem_def nth_append)
  from Cons.prems(4) have sec: "\<not> length (series ?w1 ! ?a) \<le> sec"
    using Cons.prems(2) by simp
  from w2 Cons.prems(3) obtain result where
    d: "np_dot (arrays ?w2 ! matrix) (series ?w2 ! ?a) = Inr result"
    by (auto simp: np_dot_def)
  have "\<exists>res w'. shock_loop matrix vector b ss secs (effs @ [1 - np_sum result / b]) ?w2 = (Inr res, w')"
    by (rule Cons.IH) (use w2 Cons.prems in auto)
  with sec d show ?case
    by (simp add: series_copy_def new_series_def Let_def)
qed

lemma np_quantile_succeeds: "xs \<noteq> [] \<Longrightarrow> \<exists>r. np_quantile xs q = Inr r"
  by (simp add: np_quantile_def Let_def)

lemma statistics_succeeds:
  assumes "effs \<noteq> []"
  shows "\<exists>res. statistics effs = Inr res"
proof -
  from np_quantile_succeeds [OF assms] obtain m where m: "np_quantile effs (1 / 2) = Inr m"
    by blast
  from np_quantile_succeeds [OF assms] obtain u5 where u5: "np_quantile effs (95 / 100) = Inr u5"
    by blast
  from np_quantile_succeeds [OF assms] obtain u1 where u1: "np_quantile effs (99 / 100) = Inr u1"
    by blast
  from m u5 u1 show ?thesis
    by (simp add: statistics_def Let_def)
qed

lemma shock_loop_length:
  "shock_loop matrix vector b ss secs effs w = (Inr res, w') \<Longrightarrow>
     length res = length effs + length secs"
proof (induction secs arbitrary: effs w)
  case Nil
  then show ?case by simp
next
  case (Cons sec secs)
  from Cons.prems obtain e w2 where
    "shock_loop matrix vector b ss secs (effs @ [e]) w2 = (Inr res, w')"
    by (auto simp: series_copy_def new_series_def Let_def split: if_splits sum.splits)
  from Cons.IH [OF this] show ?case by simp
qed

lemma shock_experiment_succeeds:
  assumes "vector < length (series w)" and "length (series w ! vector) = 3195"
    and "list_all (\<lambda>row. length row = 3195) (arrays w ! matrix)"
    and "1 \<le> k" and "k \<le> 3195"
  shows "\<exists>res w'. shock_experiment matrix vector b ss k w = (Inr res, w')"
proof -
  let ?secs = "take (nat k) (fst (permutation 3195 w))"
  let ?w1 = "w\<lparr>rng_pos := rng_pos w + (3195 - 1)\<rparr>"
  have c: "np_random_choice (np_arange 3195) k w = (Inr ?secs, ?w1)"
    by (rule np_random_choice_ok) (use assms in auto)
  have r: "\<forall>s \<in> set ?secs. s < 3195"
    using permutation_props(2) [of 3195 w] by (auto dest: in_set_takeD)
  have len: "length ?secs = nat k"
    using assms permutation_props(3) [of 3195 w] by simp
  have "\<exists>res w'. shock_loop matrix vector b ss ?secs [] ?w1 = (Inr res, w')"
    by (rule shock_loop_succeeds [where n = 3195]) (use assms r in auto)
  then obtain effs w2 where l: "shock_loop matrix vector b ss ?secs [] ?w1 = (Inr effs, w2)"
    by blast
  from shock_loop_length [OF l] len assms(4) have "effs \<noteq> []"
    by auto
  from statistics_succeeds [OF this] obtain res where "statistics effs = Inr res"
    by blast
  with c l show ?thesis
    by (simp add: shock_experiment_def)
qed

section \<open>The example table\<close>

lemma foldl_plus_Fin: "foldl (+) (Fin a) (map Fin rs) = Fin (a + sum_list rs)"
  by (induction rs arbitrary: a) (simp_all add: add.assoc)

lemma np_sum_Fin: "np_sum (map Fin rs) = Fin (sum_list rs)"
  by (simp add: np_sum_def zero_npfloat_def foldl_plus_Fin)

lemma np_sum_replicate: "np_sum (replicate n (Fin c)) = Fin (real n * c)"
  using np_sum_Fin [of "replicate n c"] by (simp add: sum_list_replicate)

lemma pd_sum_replicate: "pd_sum (replicate n (Fin c)) = Fin (real n * c)"
  by (simp add: pd_sum_def np_isnan_def np_sum_replicate)

lemma toy_well_formed: "well_formed_table (toy_table f d x)"
  by (simp add: well_formed_table_def rectangular_def toy_table_def list_all_iff comp_def)

lemma toy_FlowMatrix: "FlowMatrix (toy_table f d x) = replicate 3195 (replicate 3195 (Fin f))"
  by (simp add: FlowMatrix_def toy_table_def comp_def map_replicate_const)

lemma toy_TotalOutput: "TotalOutput (toy_table f d x) = replicate 3195 (Fin x)"
  by (simp add: TotalOutput_def toy_table_def nth_append comp_def map_replicate_const)

lemma toy_FinalDemand: "FinalDemand (toy_table f d x) = replicate 3195 (Fin (402 * d))"
  by (simp add: FinalDemand_def toy_table_def pd_sum_replicate comp_def map_replicate_const)

lemma toy_CoefficientMatrix:
  "i < 3195 \<Longrightarrow> j < 3195 \<Longrightarrow>
     CoefficientMatrix (toy_table f d x) ! i ! j = nan_to_zero (Fin f / Fin x)"
  by (simp add: CoefficientMatrix_def toy_FlowMatrix toy_TotalOutput)

lemma init_shapes:
  assumes "Leontief_Model_init linalg_inv df w = (Inr self, w')"
  shows "length (series w' ! demand self) = 3195"
    and "length (series w' ! output_series self) = 3195"
    and "list_all (\<lambda>row. length row = 3195) (arrays w' ! I_minus_A self)"
proof -
  note m = init_model [OF assms]
  show "length (series w' ! demand self) = 3195"
    using init_rows [OF assms] by (simp add: m FinalDemand_def)
  show "length (series w' ! output_series self) = 3195"
    using init_rows [OF assms] by (simp add: m TotalOutput_def)
  show "list_all (\<lambda>row. length row = 3195) (arrays w' ! I_minus_A self)"
    by (simp add: m Identity_minus_A_def list_all_iff)
qed

lemma shock_succeeds:
  assumes "Leontief_Model_init linalg_inv df w0 = (Inr self, w)"
    and "list_all (\<lambda>row. length row = 3195) (arrays w ! leontief_inverse self)"
    and "shock_type = ''Demand'' \<or> shock_type = ''Supply''"
    and "1 \<le> k" and "k \<le> 3195"
  shows "\<exists>res w'. shock self shock_type ss k w = (Inr res, w')"
proof -
  note sh = init_shapes [OF assms(1)]
  from init_model(9) [OF assms(1)] have v: "demand self < length (series w)"
    "output_series self < length (series w)"
    by (simp_all add: model_in_world_def)
  from assms(3) show ?thesis
  proof
    assume d: "shock_type = ''Demand''"
    have "\<exists>res w'. shock_experiment (leontief_inverse self) (demand self) (total_output self) ss k w
            = (Inr res, w')"
      by (rule shock_experiment_succeeds) (use v sh assms in auto)
    with d show ?thesis by (simp add: shock_def)
  next
    assume s: "shock_type = ''Supply''"
    have "\<exists>res w'. shock_experiment (I_minus_A self) (output_series self) (total_final_demand self) ss k w
            = (Inr res, w')"
      by (rule shock_experiment_succeeds) (use v sh assms in auto)
    with s show ?thesis by (simp add: shock_def)
  qed
qed

lemma toy_Identity_minus_A_rows:
  "list_all (\<lambda>row. length row = 3195) (Identity_minus_A df)"
  by (simp add: Identity_minus_A_def list_all_iff)

text \<open>
  A well-formed table is accepted when \<^verbatim>\<open>np.linalg.inv\<close> returns a 3195 by 3195
  matrix. With \<open>f = 0\<close> the coefficient matrix of the example table is zero and
  Identity - A is the identity matrix, which is its own inverse.
\<close>

lemma prepared_model:
  assumes "well_formed_table df" and "linalg_inv (Identity_minus_A df) = Some li"
    and "list_all (\<lambda>row. length row = 3195) li"
  shows "\<exists>self w. Leontief_Model_init linalg_inv df w0 = (Inr self, w)
           \<and> list_all (\<lambda>row. length row = 3195) (arrays w ! leontief_inverse self)"
proof -
  from init_succeeds [where linalg_inv = linalg_inv and df = df and w = w0, OF assms(1,2)]
  obtain self w where
    i: "Leontief_Model_init linalg_inv df w0 = (Inr self, w)"
    by blast
  from init_model(4) [OF i] assms(2) have "arrays w ! leontief_inverse self = li"
    by simp
  with i assms(3) show ?thesis by auto
qed

lemma toy_prepared:
  "\<exists>self w. Leontief_Model_init (\<lambda>m. Some m) (toy_table f d x) w0 = (Inr self, w)
     \<and> list_all (\<lambda>row. length row = 3195) (arrays w ! leontief_inverse self)"
  by (rule prepared_model [OF toy_well_formed _ toy_Identity_minus_A_rows]) simp

section \<open>Effects and frame of an experiment on a prepared model\<close>

lemma times_one_minus_zero: "x * (1 - Fin 0) = (x::npfloat)"
  by (cases x) (simp_all add: one_npfloat_def minus_npfloat_def)

lemma spec_effect_zero_shock: "spec_effect m v b (Fin 0) s = baseline_effect m v b"
  by (simp add: spec_effect_def baseline_effect_def shocked_vector_def times_one_minus_zero)

lemma baseline_effect_zero:
  "np_sum (mat_vec m v) = Fin t \<Longrightarrow> t \<noteq> 0 \<Longrightarrow> baseline_effect m v (Fin t) = Fin 0"
  by (simp add: baseline_effect_def one_npfloat_def minus_npfloat_def)

lemma shock_type_cases:
  "shock self shock_type ss k w = (Inr res, w') \<Longrightarrow>
     shock_type = ''Demand'' \<or> shock_type = ''Supply''"
  by (auto simp: shock_def split: if_splits)

lemma shock_demand_effects:
  assumes "Leontief_Model_init linalg_inv df w0 = (Inr self, w)"
    and "shock self ''Demand'' ss k w = (Inr res, w')"
  shows "\<exists>sectors w1 li.
           np_random_choice (np_arange 3195) k w = (Inr sectors, w1)
           \<and> linalg_inv (Identity_minus_A df) = Some li
           \<and> Shock_effect_data res =
               map (spec_effect li (FinalDemand df) (pd_sum (TotalOutput df)) ss) sectors"
proof -
  note m = init_model [OF assms(1)]
  from m(9) have v: "demand self < length (series w)"
    by (simp add: model_in_world_def)
  from assms(2) have "shock_experiment (leontief_inverse self) (demand self) (total_output self)
      ss k w = (Inr res, w')"
    by (simp add: shock_def)
  from shock_experiment_effects [OF v this] m show ?thesis
    by auto
qed

lemma shock_supply_effects:
  assumes "Leontief_Model_init linalg_inv df w0 = (Inr self, w)"
    and "shock self ''Supply'' ss k w = (Inr res, w')"
  shows "\<exists>sectors w1.
           np_random_choice (np_arange 3195) k w = (Inr sectors, w1)
           \<and> Shock_effect_data res =
               map (spec_effect (Identity_minus_A df) (TotalOutput df) (pd_sum (FinalDemand df)) ss)
                 sectors"
proof -
  note m = init_model [OF assms(1)]
  from m(9) have v: "output_series self < length (series w)"
    by (simp add: model_in_world_def)
  from assms(2) have "shock_experiment (I_minus_A self) (output_series self)
      (total_final_demand self) ss k w = (Inr res, w')"
    by (simp add: shock_def)
  from shock_experiment_effects [OF v this] m show ?thesis
    by auto
qed

lemma shock_frame:
  assumes "shock self shock_type ss k w = (r, w')"
  shows "take (length (series w)) (series w') = series w \<and> arrays w' = arrays w
           \<and> rng_raw w' = rng_raw w"
proof (cases "shock_type = ''Demand'' \<or> shock_type = ''Supply''")
  case True
  with assms shock_experiment_frame show ?thesis
    by (auto simp: shock_def split: if_splits)
next
  case False
  with assms show ?thesis by (simp add: shock_def)
qed

lemma take_nth_eq: "take n xs = ys \<Longrightarrow> a < length ys \<Longrightarrow> xs ! a = ys ! a"
  by (metis nth_take length_take min_less_iff_conj)

lemma shock_loop_allocates:
  "shock_loop matrix vector b ss secs effs w = (Inr res, w') \<Longrightarrow>
     length (series w') = length (series w) + length secs"
proof (induction secs arbitrary: effs w)
  case Nil
  then show ?case by simp
next
  case (Cons sec secs)
  let ?w1 = "w\<lparr>series := series w @ [series w ! vector]\<rparr>"
  let ?w2 = "series_setitem (length (series w)) sec
               ((series ?w1 ! length (series w) ! sec) * (1 - ss)) ?w1"
  from Cons.prems obtain e where
    "shock_loop matrix vector b ss secs (effs @ [e]) ?w2 = (Inr res, w')"
    by (auto simp: series_copy_def new_series_def Let_def split: if_splits sum.splits)
  from Cons.IH [OF this] show ?case
    by (simp add: series_setitem_def)
qed

lemma shock_allocates:
  assumes "shock self shock_type ss k w = (Inr res, w')" and "0 \<le> k"
  shows "int (length (series w')) = int (length (series w)) + k"
proof -
  from assms(1) obtain matrix vector b where
    e: "shock_experiment matrix vector b ss k w = (Inr res, w')"
    by (auto simp: shock_def split: if_splits)
  then obtain sectors w1 effs where
    c: "np_random_choice (np_arange 3195) k w = (Inr sectors, w1)"
    and l: "shock_loop matrix vector b ss sectors [] w1 = (Inr effs, w')"
    by (auto simp: shock_experiment_def split: sum.splits prod.splits)
  from c have k: "k \<le> 3195"
    by (auto simp: np_random_choice_def np_arange_def split: if_splits)
  have "np_random_choice (np_arange 3195) k w =
          (Inr (take (nat k) (fst (permutation 3195 w))), w\<lparr>rng_pos := rng_pos w + (3195 - 1)\<rparr>)"
    by (rule np_random_choice_ok) (use assms(2) k in auto)
  with c have "length sectors = nat k" "series w1 = series w"
    using permutation_props(3) [of 3195 w] k by auto
  with shock_loop_allocates [OF l] assms(2) show ?thesis by simp
qed

section \<open>Computing on the example table\<close>

lemma sum_list_delta:
  assumes "i < n"
  shows "sum_list (map (\<lambda>j. (if i = j then 1 else 0) * f j) [0..<n]) = (f i :: real)"
proof -
  have "sum_list (map (\<lambda>j. (if i = j then 1 else 0) * f j) [0..<n])
          = (\<Sum>j\<in>{0..<n}. (if i = j then 1 else 0) * f j)"
    by (simp add: interv_sum_list_conv_sum_set_nat)
  also have "\<dots> = (\<Sum>j\<in>{0..<n}. if j = i then f j else 0)"
    by (rule sum.cong) auto
  also have "\<dots> = f i"
    using assms by (simp add: sum.delta)
  finally show ?thesis .
qed

lemma mat_vec_unit:
  assumes "length m = n" and "length rs = n"
    and "\<And>i j. i < n \<Longrightarrow> j < n \<Longrightarrow> m ! i ! j = Fin (if i = j then 1 else 0)"
  shows "mat_vec m (map Fin rs) = map Fin rs"
proof (rule nth_equalityI)
  show "length (mat_vec m (map Fin rs)) = length (map Fin rs)"
    using assms by (simp add: mat_vec_def)
next
  fix i assume "i < length (mat_vec m (map Fin rs))"
  then have i: "i < n" using assms by (simp add: mat_vec_def)
  have "map (\<lambda>j. m ! i ! j * map Fin rs ! j) [0..<n]
          = map Fin (map (\<lambda>j. (if i = j then 1 else 0) * rs ! j) [0..<n])"
    using assms i by simp
  then have "np_sum (map (\<lambda>j. m ! i ! j * map Fin rs ! j) [0..<n]) = Fin (rs ! i)"
    using sum_list_delta [OF i, of "\<lambda>j. rs ! j"] by (simp only: np_sum_Fin)
  then show "mat_vec m (map Fin rs) ! i = map Fin rs ! i"
    using assms i by (simp add: mat_vec_def)
qed

lemma toy_Identity_minus_A:
  assumes "i < 3195" "j < 3195"
  shows "Identity_minus_A (toy_table 0 d x) ! i ! j = Fin (if i = j then 1 else 0)"
  using assms
  by (simp add: Identity_minus_A_def toy_CoefficientMatrix nan_to_zero_def np_isnan_def
        one_npfloat_def zero_npfloat_def minus_npfloat_def)

lemma toy_mat_vec:
  "mat_vec (Identity_minus_A (toy_table 0 d x)) (replicate 3195 (Fin c)) = replicate 3195 (Fin c)"
proof -
  have "mat_vec (Identity_minus_A (toy_table 0 d x)) (map Fin (replicate 3195 c))
          = map Fin (replicate 3195 c)"
  proof (rule mat_vec_unit [where n = 3195])
    show "length (Identity_minus_A (toy_table 0 d x)) = 3195"
      by (simp add: Identity_minus_A_def)
    show "length (replicate 3195 c) = 3195"
      by simp
    show "Identity_minus_A (toy_table 0 d x) ! i ! j = Fin (if i = j then 1 else 0)"
      if "i < 3195" "j < 3195" for i j
      using that by (rule toy_Identity_minus_A)
  qed
  then show ?thesis by simp
qed

lemma toy_supply_baseline_general:
  "baseline_effect (Identity_minus_A (toy_table 0 d x)) (TotalOutput (toy_table 0 d x))
     (pd_sum (FinalDemand (toy_table 0 d x)))
   = 1 - Fin (3195 * x) / Fin (3195 * (402 * d))"
  by (simp add: baseline_effect_def toy_TotalOutput toy_FinalDemand toy_mat_vec
        np_sum_replicate pd_sum_replicate)

section \<open>Quantiles of finite values\<close>

lemma insort_key_Fin:
  "insort_key sort_key_float (Fin x) (map Fin ys) = map Fin (insort x ys)"
  by (induction ys) simp_all

lemma np_sort_Fin: "np_sort (map Fin rs) = map Fin (sort rs)"
  unfolding np_sort_def
  by (induction rs) (simp_all add: insort_key_Fin)

lemma lerp_Fin: "lerp (Fin a) (Fin b) t = Fin (a + (b - a) * t)"
  by (simp add: lerp_def minus_npfloat_def algebra_simps)

lemma virtual_index_bound:
  assumes "0 \<le> q" "q \<le> 1"
  shows "nat \<lfloor>real n * q\<rfloor> \<le> n"
proof -
  have "real n * q \<le> real n"
    using assms by (simp add: mult_left_le)
  then have "\<lfloor>real n * q\<rfloor> \<le> int n"
    by (simp add: floor_le_iff)
  then show ?thesis by simp
qed

lemma np_quantile_Fin:
  assumes "rs \<noteq> []" and "0 \<le> q" and "q \<le> 1"
  shows "np_quantile (map Fin rs) q = Inr (Fin (interp (sort rs) (real (length rs - 1) * q)))"
proof -
  define s where "s = sort rs"
  define v where "v = real (length rs - 1) * q"
  define p where "p = nat \<lfloor>v\<rfloor>"
  define nx where "nx = min (p + 1) (length rs - 1)"
  have len: "length s = length rs"
    by (simp add: s_def)
  with assms(1) have ne: "s \<noteq> []"
    by (metis length_0_conv)
  have "p \<le> length rs - 1"
    unfolding p_def v_def by (rule virtual_index_bound [OF assms(2,3)])
  moreover have pos: "0 < length rs"
    using assms(1) by simp
  ultimately have p: "p < length s" and n: "nx < length s"
    unfolding nx_def len by linarith+
  have l: "\<not> np_isnan (last (map Fin s))"
    using ne by (simp add: last_map np_isnan_def)
  have q: "np_quantile (map Fin rs) q =
             (if np_isnan (last (map Fin s)) then Inr NaN
              else Inr (lerp (map Fin s ! p) (map Fin s ! nx) (v - real p)))"
    using assms(1)
    by (simp only: np_quantile_def Let_def np_sort_Fin s_def v_def p_def nx_def length_map
          length_0_conv if_False)
  have "lerp (map Fin s ! p) (map Fin s ! nx) (v - real p) = Fin (interp s v)"
    using p n by (simp add: lerp_Fin interp_def Let_def p_def nx_def len)
  with q l show ?thesis
    by (simp add: s_def v_def)
qed

lemma interp_bounds:
  assumes "sorted s" and "s \<noteq> []" and "0 \<le> v" and "v \<le> real (length s - 1)"
  shows "s ! nat \<lfloor>v\<rfloor> \<le> interp s v"
    and "interp s v \<le> s ! min (nat \<lfloor>v\<rfloor> + 1) (length s - 1)"
proof -
  define p where "p = nat \<lfloor>v\<rfloor>"
  define nx where "nx = min (p + 1) (length s - 1)"
  have rp: "real p = of_int \<lfloor>v\<rfloor>"
    using assms(3) by (simp add: p_def)
  have g: "0 \<le> v - real p" "v - real p \<le> 1"
    unfolding rp by linarith+
  have pos: "0 < length s" using assms(2) by simp
  have "p \<le> nx" "nx < length s"
    unfolding nx_def using pos assms(4) rp by (auto simp: min_def) linarith+
  then have d: "0 \<le> s ! nx - s ! p"
    using sorted_nth_mono [OF assms(1), of p nx] by simp
  have i: "interp s v = s ! p + (s ! nx - s ! p) * (v - real p)"
    by (simp add: interp_def Let_def p_def nx_def)
  show "s ! nat \<lfloor>v\<rfloor> \<le> interp s v"
    unfolding i p_def [symmetric] using d g by simp
  have "(s ! nx - s ! p) * (v - real p) \<le> (s ! nx - s ! p) * 1"
    by (rule mult_left_mono [OF g(2) d])
  then show "interp s v \<le> s ! min (nat \<lfloor>v\<rfloor> + 1) (length s - 1)"
    unfolding i p_def [symmetric] nx_def [symmetric] by simp
qed

lemma interp_mono:
  assumes "sorted s" and "s \<noteq> []" and "0 \<le> v" and "v \<le> w" and "w \<le> real (length s - 1)"
  shows "interp s v \<le> interp s w"
proof -
  define p where "p = nat \<lfloor>v\<rfloor>"
  define r where "r = nat \<lfloor>w\<rfloor>"
  have pr: "p \<le> r"
    unfolding p_def r_def using assms(4) by (simp add: floor_mono nat_mono)
  have pos: "0 < length s" using assms(2) by simp
  have rr: "real r = of_int \<lfloor>w\<rfloor>"
    using assms(3,4) by (simp add: r_def)
  have rlen: "r < length s"
    using pos assms(5) rr by linarith
  show ?thesis
  proof (cases "p = r")
    case True
    define nx where "nx = min (p + 1) (length s - 1)"
    have "p \<le> nx" "nx < length s"
      unfolding nx_def using pos rlen True by (auto simp: min_def)
    then have d: "0 \<le> s ! nx - s ! p"
      using sorted_nth_mono [OF assms(1), of p nx] by simp
    have "interp s v = s ! p + (s ! nx - s ! p) * (v - real p)"
      by (simp add: interp_def Let_def p_def nx_def)
    moreover have "interp s w = s ! p + (s ! nx - s ! p) * (w - real p)"
      using True by (simp add: interp_def Let_def r_def nx_def)
    moreover have "(s ! nx - s ! p) * (v - real p) \<le> (s ! nx - s ! p) * (w - real p)"
      by (rule mult_left_mono [OF _ d]) (use assms(4) in simp)
    ultimately show ?thesis by simp
  next
    case False
    with pr have lt: "p + 1 \<le> r" by simp
    have "min (p + 1) (length s - 1) \<le> r"
      using lt by simp
    then have "s ! min (p + 1) (length s - 1) \<le> s ! r"
      using sorted_nth_mono [OF assms(1) _ rlen] by simp
    moreover have "interp s v \<le> s ! min (p + 1) (length s - 1)"
      unfolding p_def by (rule interp_bounds(2) [OF assms(1,2,3)]) (use assms in linarith)
    moreover have "s ! r \<le> interp s w"
      unfolding r_def by (rule interp_bounds(1) [OF assms(1,2) _ assms(5)]) (use assms in linarith)
    ultimately show ?thesis by linarith
  qed
qed

lemma interp_between_min_max:
  assumes "rs \<noteq> []" and "0 \<le> v" and "v \<le> real (length rs - 1)"
  shows "Min (set rs) \<le> interp (sort rs) v" and "interp (sort rs) v \<le> Max (set rs)"
proof -
  let ?s = "sort rs"
  have ne: "?s \<noteq> []" using assms(1) by (metis length_sort length_0_conv)
  have len: "length ?s = length rs" by simp
  have pos: "0 < length rs" using assms(1) by simp
  have rp: "real (nat \<lfloor>v\<rfloor>) = of_int \<lfloor>v\<rfloor>"
    using assms(2) by simp
  have p: "nat \<lfloor>v\<rfloor> < length ?s"
    unfolding len using pos assms(3) rp by linarith
  have n: "min (nat \<lfloor>v\<rfloor> + 1) (length ?s - 1) < length ?s"
    unfolding len using pos by linarith
  have v: "v \<le> real (length ?s - 1)"
    using assms(3) by simp
  have b: "?s ! nat \<lfloor>v\<rfloor> \<le> interp ?s v"
    "interp ?s v \<le> ?s ! min (nat \<lfloor>v\<rfloor> + 1) (length ?s - 1)"
    by (rule interp_bounds [OF sorted_sort ne assms(2) v])+
  have "Min (set rs) \<le> ?s ! nat \<lfloor>v\<rfloor>"
    using nth_mem [OF p] by (simp add: Min_le)
  with b(1) show "Min (set rs) \<le> interp ?s v" by linarith
  have "?s ! min (nat \<lfloor>v\<rfloor> + 1) (length ?s - 1) \<le> Max (set rs)"
    using nth_mem [OF n] by (simp add: Max_ge)
  with b(2) show "interp ?s v \<le> Max (set rs)" by linarith
qed

lemma shock_statistics:
  assumes "shock self shock_type ss k w = (Inr res, w')"
  shows "statistics (Shock_effect_data res) = Inr res"
proof -
  from assms obtain matrix vector b where
    "shock_experiment matrix vector b ss k w = (Inr res, w')"
    by (auto simp: shock_def split: if_splits)
  then obtain effs where s: "statistics effs = Inr res"
    by (auto simp: shock_experiment_def split: sum.splits prod.splits)
  with statistics_data [OF s] show ?thesis by simp
qed

lemma statistics_quantiles:
  assumes "statistics effs = Inr res"
  shows "np_quantile effs (1 / 2) = Inr (Median res)"
    and "np_quantile effs (95 / 100) = Inr (Upper_5_quantile res)"
    and "np_quantile effs (99 / 100) = Inr (Upper_1_quantile res)"
  using assms by (auto simp: statistics_def Let_def split: sum.splits)

lemma sort_key_float_NaN: "(3, 0) \<le> sort_key_float y \<Longrightarrow> y = NaN"
  by (cases y) simp_all

lemma last_np_sort_NaN:
  assumes "NaN \<in> set xs"
  shows "last (np_sort xs) = NaN"
proof -
  define s where "s = sort_key sort_key_float xs"
  from assms have mem: "NaN \<in> set s" by (simp add: s_def)
  then have ne: "s \<noteq> []" by auto
  from mem obtain i where i: "i < length s" "s ! i = NaN"
    unfolding in_set_conv_nth by blast
  have "sorted (map sort_key_float s)"
    unfolding s_def by (rule sorted_sort_key)
  moreover have "i \<le> length s - 1" "length s - 1 < length (map sort_key_float s)"
    using i by simp_all
  ultimately have "map sort_key_float s ! i \<le> map sort_key_float s ! (length s - 1)"
    by (rule sorted_nth_mono)
  with i have "(3, 0) \<le> sort_key_float (s ! (length s - 1))"
    by simp
  then have "s ! (length s - 1) = NaN"
    by (rule sort_key_float_NaN)
  with ne show ?thesis
    by (simp add: np_sort_def last_conv_nth s_def [symmetric])
qed

lemma np_quantile_NaN: "NaN \<in> set xs \<Longrightarrow> np_quantile xs q = Inr NaN"
  using last_np_sort_NaN [of xs]
  by (auto simp: np_quantile_def Let_def np_isnan_def)

lemma shocked_replicate:
  assumes "s < n"
  shows "shocked_vector (replicate n (Fin x)) (Fin a) s = map Fin ((replicate n x)[s := x * (1 - a)])"
  using assms
  by (simp add: shocked_vector_def map_update one_npfloat_def minus_npfloat_def)

lemma toy_supply_effect:
  assumes "s < 3195"
  shows "spec_effect (Identity_minus_A (toy_table 0 d x)) (TotalOutput (toy_table 0 d x))
           (pd_sum (FinalDemand (toy_table 0 d x))) (Fin a) s
         = 1 - Fin (sum_list ((replicate 3195 x)[s := x * (1 - a)])) / Fin (3195 * (402 * d))"
proof -
  have "mat_vec (Identity_minus_A (toy_table 0 d x)) (map Fin ((replicate 3195 x)[s := x * (1 - a)]))
          = map Fin ((replicate 3195 x)[s := x * (1 - a)])"
  proof (rule mat_vec_unit [where n = 3195])
    show "length (Identity_minus_A (toy_table 0 d x)) = 3195"
      by (simp add: Identity_minus_A_def)
    show "length ((replicate 3195 x)[s := x * (1 - a)]) = 3195"
      by simp
    show "Identity_minus_A (toy_table 0 d x) ! i ! j = Fin (if i = j then 1 else 0)"
      if "i < 3195" "j < 3195" for i j
      using that by (rule toy_Identity_minus_A)
  qed
  then show ?thesis
    by (simp add: spec_effect_def toy_TotalOutput toy_FinalDemand shocked_replicate [OF assms]
          np_sum_Fin pd_sum_replicate)
qed

lemma toy_supply_effects_finite:
  assumes "\<forall>s \<in> set sectors. s < 3195"
  shows "map (spec_effect (Identity_minus_A (toy_table 0 d x)) (TotalOutput (toy_table 0 d x))
                (pd_sum (FinalDemand (toy_table 0 d x))) (Fin a)) sectors
         = map (\<lambda>s. 1 - Fin (sum_list ((replicate 3195 x)[s := x * (1 - a)])) / Fin (3195 * (402 * d)))
             sectors"
  by (rule map_cong) (use assms toy_supply_effect in auto)

lemma sectors_in_range:
  assumes "np_random_choice (np_arange 3195) k w = (Inr sectors, w1)" and "0 \<le> k"
  shows "\<forall>s \<in> set sectors. s < 3195" and "length sectors = nat k"
proof -
  from assms(1) have k: "k \<le> 3195"
    by (auto simp: np_random_choice_def np_arange_def split: if_splits)
  have "np_random_choice (np_arange 3195) k w =
          (Inr (take (nat k) (fst (permutation 3195 w))), w\<lparr>rng_pos := rng_pos w + (3195 - 1)\<rparr>)"
    by (rule np_random_choice_ok) (use assms(2) k in auto)
  with assms(1) have s: "sectors = take (nat k) (fst (permutation 3195 w))"
    by simp
  show "\<forall>s \<in> set sectors. s < 3195"
    unfolding s using permutation_props(2) [of 3195 w] by (auto dest: in_set_takeD)
  show "length sectors = nat k"
    unfolding s using permutation_props(3) [of 3195 w] k by simp
qed

lemma replicate_update_same: "(replicate n x)[i := x] = replicate n x"
  by (induction n arbitrary: i) (simp_all split: nat.split)

section \<open>The loops of run\<close>

lemma record_unchanged:
  "return_result self k = Some old \<Longrightarrow>
     self\<lparr>return_result := (return_result self)(k \<mapsto> old)\<rparr> = self"
  by (simp add: fun_upd_idem)

lemma run_body_trial:
  assumes "2 \<le> length (shock_sizes self)"
    and "return_result self (result_key (shock_sizes self) ss) = Some old"
  shows "run_body linalg_inv df ss self w =
           (case trial linalg_inv df ss w of
              (Inl e, w1) \<Rightarrow> (Some e, self, w1)
            | (Inr v, w1) \<Rightarrow>
                (None, self\<lparr>return_result :=
                         (return_result self)(result_key (shock_sizes self) ss \<mapsto> old @ [v])\<rparr>, w1))"
  using assms
  by (auto simp: run_body_def trial_def result_key_def list_get_def record_result_def
        dict_append_def split: prod.splits sum.splits)

lemma record_append_twice:
  "self\<lparr>return_result := (return_result self)(k \<mapsto> a)\<rparr>
       \<lparr>return_result :=
          (return_result (self\<lparr>return_result := (return_result self)(k \<mapsto> a)\<rparr>))(k \<mapsto> b)\<rparr>
     = self\<lparr>return_result := (return_result self)(k \<mapsto> b)\<rparr>"
  by simp

lemma run_replications_trials:
  assumes "2 \<le> length (shock_sizes self)"
    and "result_key (shock_sizes self) ss = k"
    and "return_result self k = Some old"
    and "trials linalg_inv df ss n w = (Inr vs, w')"
  shows "run_replications linalg_inv df ss n self w =
           (None, self\<lparr>return_result := (return_result self)(k \<mapsto> old @ vs)\<rparr>, w')"
  using assms
proof (induction n arbitrary: self w old vs)
  case 0
  from "0.prems"(4) have e: "vs = []" "w' = w"
    by simp_all
  show ?case
    unfolding e by (simp only: run_replications.simps append_Nil2 record_unchanged [OF "0.prems"(3)])
next
  case (Suc n)
  from Suc.prems(4) obtain v w1 vs' where
    t: "trial linalg_inv df ss w = (Inr v, w1)"
    and ts: "trials linalg_inv df ss n w1 = (Inr vs', w')"
    and vs: "vs = v # vs'"
    by (auto split: prod.splits sum.splits)
  let ?self1 = "self\<lparr>return_result := (return_result self)(k \<mapsto> old @ [v])\<rparr>"
  have b: "run_body linalg_inv df ss self w = (None, ?self1, w1)"
    using run_body_trial [of self ss old linalg_inv df w] Suc.prems(1,2,3) t by simp
  have ih: "run_replications linalg_inv df ss n ?self1 w1 =
          (None, ?self1\<lparr>return_result := (return_result ?self1)(k \<mapsto> (old @ [v]) @ vs')\<rparr>, w')"
    by (rule Suc.IH) (use Suc.prems(1,2) ts in simp_all)
  have "run_replications linalg_inv df ss (Suc n) self w
          = run_replications linalg_inv df ss n ?self1 w1"
    by (simp only: run_replications.simps b prod.case option.case)
  also have "\<dots> = (None, self\<lparr>return_result := (return_result self)(k \<mapsto> (old @ [v]) @ vs')\<rparr>, w')"
    by (simp only: ih record_append_twice)
  finally show ?case
    by (simp only: vs append_assoc append_Cons append_Nil)
qed

lemma trials_length: "trials linalg_inv df ss n w = (Inr vs, w') \<Longrightarrow> length vs = n"
  by (induction n arbitrary: w vs) (auto split: prod.splits sum.splits)

lemma run_replications_succeeded:
  assumes "2 \<le> length (shock_sizes self)"
    and "result_key (shock_sizes self) ss = k"
    and "return_result self k = Some old"
    and "run_replications linalg_inv df ss n self w = (None, self', w')"
  shows "\<exists>vs. trials linalg_inv df ss n w = (Inr vs, w')
           \<and> self' = self\<lparr>return_result := (return_result self)(k \<mapsto> old @ vs)\<rparr>"
  using assms
proof (induction n arbitrary: self w old)
  case 0
  from "0.prems"(4) have e: "self' = self" "w' = w"
    by simp_all
  show ?case
    unfolding e
    by (rule exI [of _ "[]"]) (simp only: trials.simps append_Nil2 record_unchanged [OF "0.prems"(3)])
next
  case (Suc n)
  from Suc.prems(4) run_body_trial [of self ss old linalg_inv df w] Suc.prems(1,2,3)
  obtain v w1 where t: "trial linalg_inv df ss w = (Inr v, w1)"
    by (auto split: prod.splits sum.splits)
  let ?self1 = "self\<lparr>return_result := (return_result self)(k \<mapsto> old @ [v])\<rparr>"
  have b: "run_body linalg_inv df ss self w = (None, ?self1, w1)"
    using run_body_trial [of self ss old linalg_inv df w] Suc.prems(1,2,3) t by simp
  have "run_replications linalg_inv df ss (Suc n) self w
          = run_replications linalg_inv df ss n ?self1 w1"
    by (simp only: run_replications.simps b prod.case option.case)
  with Suc.prems(4) have r: "run_replications linalg_inv df ss n ?self1 w1 = (None, self', w')"
    by simp
  have "\<exists>vs. trials linalg_inv df ss n w1 = (Inr vs, w')
           \<and> self' = ?self1\<lparr>return_result := (return_result ?self1)(k \<mapsto> (old @ [v]) @ vs)\<rparr>"
    by (rule Suc.IH [OF _ _ _ r]) (use Suc.prems(1,2) in simp_all)
  then obtain vs where ts: "trials linalg_inv df ss n w1 = (Inr vs, w')"
    and s: "self' = ?self1\<lparr>return_result := (return_result ?self1)(k \<mapsto> (old @ [v]) @ vs)\<rparr>"
    by blast
  from s have "self' = self\<lparr>return_result := (return_result self)(k \<mapsto> old @ (v # vs))\<rparr>"
    by (simp only: record_append_twice append_assoc append_Cons append_Nil)
  moreover have "trials linalg_inv df ss (Suc n) w = (Inr (v # vs), w')"
    by (simp add: t ts)
  ultimately show ?case by blast
qed

lemma result_key_standard:
  "result_key [Fin (3 / 10), Fin (7 / 10), Fin 1] (Fin (3 / 10)) = ''for_30%_shock_size''"
  "result_key [Fin (3 / 10), Fin (7 / 10), Fin 1] (Fin (7 / 10)) = ''for_70%_shock_size''"
  "result_key [Fin (3 / 10), Fin (7 / 10), Fin 1] (Fin 1) = ''for_100%_shock_size''"
  by (simp_all add: result_key_def float_eq_def)

lemma run_succeeded:
  assumes "shock_sizes self = [Fin (3 / 10), Fin (7 / 10), Fin 1]"
    and "return_result self ''for_30%_shock_size'' = Some a"
    and "return_result self ''for_70%_shock_size'' = Some b"
    and "return_result self ''for_100%_shock_size'' = Some c"
    and "run linalg_inv df self w = (Inr ret, self', w')"
  shows "\<exists>v1 v2 v3 w1 w2.
           trials linalg_inv df (Fin (3 / 10)) (nat (number_of_replications self)) w = (Inr v1, w1)
           \<and> trials linalg_inv df (Fin (7 / 10)) (nat (number_of_replications self)) w1 = (Inr v2, w2)
           \<and> trials linalg_inv df (Fin 1) (nat (number_of_replications self)) w2 = (Inr v3, w')
           \<and> ret = (return_result self)(''for_30%_shock_size'' \<mapsto> a @ v1,
                       ''for_70%_shock_size'' \<mapsto> b @ v2, ''for_100%_shock_size'' \<mapsto> c @ v3)
           \<and> self' = self\<lparr>return_result := ret\<rparr>"
proof -
  let ?n = "nat (number_of_replications self)"
  from assms(5) have rs: "run_sizes linalg_inv df (shock_sizes self) self w = (None, self', w')"
    and ret: "ret = return_result self'"
    by (auto simp: run_def split: prod.splits option.splits)
  from rs obtain self1 w1 where
    r1: "run_replications linalg_inv df (Fin (3 / 10)) ?n self w = (None, self1, w1)"
    and rs1: "run_sizes linalg_inv df [Fin (7 / 10), Fin 1] self1 w1 = (None, self', w')"
    unfolding assms(1) by (auto split: prod.splits option.splits)
  from run_replications_succeeded [OF _ _ assms(2) r1] obtain v1 where
    t1: "trials linalg_inv df (Fin (3 / 10)) ?n w = (Inr v1, w1)"
    and s1: "self1 = self\<lparr>return_result := (return_result self)(''for_30%_shock_size'' \<mapsto> a @ v1)\<rparr>"
    by (auto simp: assms(1) result_key_standard)
  have n1: "nat (number_of_replications self1) = ?n"
    "shock_sizes self1 = [Fin (3 / 10), Fin (7 / 10), Fin 1]"
    "return_result self1 ''for_70%_shock_size'' = Some b"
    by (simp_all add: s1 assms)
  from rs1 obtain self2 w2 where
    r2: "run_replications linalg_inv df (Fin (7 / 10)) ?n self1 w1 = (None, self2, w2)"
    and rs2: "run_sizes linalg_inv df [Fin 1] self2 w2 = (None, self', w')"
    unfolding n1(1) [symmetric] by (auto split: prod.splits option.splits)
  from run_replications_succeeded [OF _ _ n1(3) r2] obtain v2 where
    t2: "trials linalg_inv df (Fin (7 / 10)) ?n w1 = (Inr v2, w2)"
    and s2: "self2 = self1\<lparr>return_result := (return_result self1)(''for_70%_shock_size'' \<mapsto> b @ v2)\<rparr>"
    by (auto simp: n1(2) result_key_standard)
  have n2: "nat (number_of_replications self2) = ?n"
    "shock_sizes self2 = [Fin (3 / 10), Fin (7 / 10), Fin 1]"
    "return_result self2 ''for_100%_shock_size'' = Some c"
    by (simp_all add: s2 s1 assms)
  from rs2 have r3: "run_replications linalg_inv df (Fin 1) ?n self2 w2 = (None, self', w')"
    unfolding n2(1) [symmetric] by (auto split: prod.splits option.splits)
  from run_replications_succeeded [OF _ _ n2(3) r3] obtain v3 where
    t3: "trials linalg_inv df (Fin 1) ?n w2 = (Inr v3, w')"
    and s3: "self' = self2\<lparr>return_result := (return_result self2)(''for_100%_shock_size'' \<mapsto> c @ v3)\<rparr>"
    by (auto simp: n2(2) result_key_standard)
  have "ret = (return_result self)(''for_30%_shock_size'' \<mapsto> a @ v1,
                       ''for_70%_shock_size'' \<mapsto> b @ v2, ''for_100%_shock_size'' \<mapsto> c @ v3)"
    by (simp add: ret s3 s2 s1)
  moreover have "self' = self\<lparr>return_result := return_result self'\<rparr>"
    by (simp add: s3 s2 s1)
  then have "self' = self\<lparr>return_result := ret\<rparr>"
    by (simp only: ret)
  ultimately show ?thesis
    using t1 t2 t3 by blast
qed

lemma run_from_trials:
  assumes "shock_sizes self = [Fin (3 / 10), Fin (7 / 10), Fin 1]"
    and "return_result self ''for_30%_shock_size'' = Some a"
    and "return_result self ''for_70%_shock_size'' = Some b"
    and "return_result self ''for_100%_shock_size'' = Some c"
    and "trials linalg_inv df (Fin (3 / 10)) (nat (number_of_replications self)) w = (Inr v1, w1)"
    and "trials linalg_inv df (Fin (7 / 10)) (nat (number_of_replications self)) w1 = (Inr v2, w2)"
    and "trials linalg_inv df (Fin 1) (nat (number_of_replications self)) w2 = (Inr v3, w3)"
  shows "\<exists>ret self'. run linalg_inv df self w = (Inr ret, self', w3)"
proof -
  let ?n = "nat (number_of_replications self)"
  let ?self1 = "self\<lparr>return_result := (return_result self)(''for_30%_shock_size'' \<mapsto> a @ v1)\<rparr>"
  let ?self2 = "?self1\<lparr>return_result := (return_result ?self1)(''for_70%_shock_size'' \<mapsto> b @ v2)\<rparr>"
  let ?self3 = "?self2\<lparr>return_result := (return_result ?self2)(''for_100%_shock_size'' \<mapsto> c @ v3)\<rparr>"
  have r1: "run_replications linalg_inv df (Fin (3 / 10)) ?n self w = (None, ?self1, w1)"
    by (rule run_replications_trials [OF _ _ assms(2) assms(5)])
       (simp_all add: assms(1) result_key_standard)
  have r2: "run_replications linalg_inv df (Fin (7 / 10)) ?n ?self1 w1 = (None, ?self2, w2)"
    by (rule run_replications_trials [OF _ _ _ assms(6)])
       (simp_all add: assms(1,3) result_key_standard)
  have r3: "run_replications linalg_inv df (Fin 1) ?n ?self2 w2 = (None, ?self3, w3)"
    by (rule run_replications_trials [OF _ _ _ assms(7)])
       (simp_all add: assms(1,4) result_key_standard)
  have "run_sizes linalg_inv df [Fin (3 / 10), Fin (7 / 10), Fin 1] self w = (None, ?self3, w3)"
    using r1 r2 r3 by simp
  then show ?thesis
    by (simp add: run_def assms(1))
qed

lemma init_holds_results: "holds_results (ReproducibleResult_init r) 0"
  by (simp add: holds_results_def ReproducibleResult_init_def)

lemma run_holds_results:
  assumes "holds_results self m"
    and "run linalg_inv df self w = (Inr ret, self', w')"
  shows "holds_results self' (m + nat (number_of_replications self))"
    and "number_of_replications self' = number_of_replications self"
    and "ret = return_result self'"
    and "key \<in> {''for_30%_shock_size'', ''for_70%_shock_size'', ''for_100%_shock_size''} \<Longrightarrow>
           \<exists>old new. return_result self key = Some old \<and> length old = m
             \<and> ret key = Some (old @ new) \<and> length new = nat (number_of_replications self)"
proof -
  let ?n = "nat (number_of_replications self)"
  from assms(1) obtain a b c where
    sz: "shock_sizes self = [Fin (3 / 10), Fin (7 / 10), Fin 1]"
    and k: "return_result self ''for_30%_shock_size'' = Some a"
      "return_result self ''for_70%_shock_size'' = Some b"
      "return_result self ''for_100%_shock_size'' = Some c"
    and l: "length a = m" "length b = m" "length c = m"
    by (auto simp: holds_results_def)
  from run_succeeded [OF sz k assms(2)] obtain v1 v2 v3 w1 w2 where
    t: "trials linalg_inv df (Fin (3 / 10)) ?n w = (Inr v1, w1)"
      "trials linalg_inv df (Fin (7 / 10)) ?n w1 = (Inr v2, w2)"
      "trials linalg_inv df (Fin 1) ?n w2 = (Inr v3, w')"
    and ret: "ret = (return_result self)(''for_30%_shock_size'' \<mapsto> a @ v1,
                       ''for_70%_shock_size'' \<mapsto> b @ v2, ''for_100%_shock_size'' \<mapsto> c @ v3)"
    and s: "self' = self\<lparr>return_result := ret\<rparr>"
    by blast
  note len = trials_length [OF t(1)] trials_length [OF t(2)] trials_length [OF t(3)]
  have r: "ret ''for_30%_shock_size'' = Some (a @ v1)" "ret ''for_70%_shock_size'' = Some (b @ v2)"
    "ret ''for_100%_shock_size'' = Some (c @ v3)"
    by (simp_all add: ret)
  show "holds_results self' (m + ?n)"
    unfolding holds_results_def using r l len sz by (simp add: s)
  show "number_of_replications self' = number_of_replications self"
    by (simp add: s)
  show "ret = return_result self'"
    by (simp add: s)
  show "\<exists>old new. return_result self key = Some old \<and> length old = m
             \<and> ret key = Some (old @ new) \<and> length new = ?n"
    if "key \<in> {''for_30%_shock_size'', ''for_70%_shock_size'', ''for_100%_shock_size''}"
    using that k l r len by blast
qed

lemma run_times_holds_results:
  assumes "holds_results self m"
    and "run_times linalg_inv df k self w = (None, self', w')"
  shows "holds_results self' (m + k * nat (number_of_replications self))
           \<and> number_of_replications self' = number_of_replications self"
  using assms
proof (induction k arbitrary: self w m)
  case 0
  then show ?case by simp
next
  case (Suc k)
  from Suc.prems(2) obtain ret self1 w1 where
    r: "run linalg_inv df self w = (Inr ret, self1, w1)"
    and rt: "run_times linalg_inv df k self1 w1 = (None, self', w')"
    by (auto split: prod.splits sum.splits)
  note h = run_holds_results(1,2) [OF Suc.prems(1) r]
  from Suc.IH [OF h(1) rt] h(2) show ?case
    by (simp add: algebra_simps)
qed

lemma toy_trial:
  "\<exists>v w'. trial (\<lambda>m. Some m) (toy_table f d x) ss w = (Inr v, w')"
proof -
  from toy_prepared [of f d x w] obtain L w1 where
    i: "Leontief_Model_init (\<lambda>m. Some m) (toy_table f d x) w = (Inr L, w1)"
    and r: "list_all (\<lambda>row. length row = 3195) (arrays w1 ! leontief_inverse L)"
    by blast
  from shock_succeeds [OF i r, of "''Demand''" 300 ss] obtain res w2 where
    "shock L ''Demand'' ss 300 w1 = (Inr res, w2)"
    by auto
  with i show ?thesis
    by (simp add: trial_def)
qed

lemma toy_trials:
  "\<exists>vs w'. trials (\<lambda>m. Some m) (toy_table f d x) ss n w = (Inr vs, w')"
proof (induction n arbitrary: w)
  case 0
  then show ?case by simp
next
  case (Suc n)
  from toy_trial [of f d x ss w] obtain v w1 where
    t: "trial (\<lambda>m. Some m) (toy_table f d x) ss w = (Inr v, w1)"
    by blast
  from Suc [of w1] obtain vs w2 where
    "trials (\<lambda>m. Some m) (toy_table f d x) ss n w1 = (Inr vs, w2)"
    by blast
  with t show ?case by simp
qed

lemma toy_run:
  assumes "holds_results self m"
  shows "\<exists>ret self' w'. run (\<lambda>m. Some m) (toy_table f d x) self w = (Inr ret, self', w')"
proof -
  let ?n = "nat (number_of_replications self)"
  from assms obtain a b c where
    sz: "shock_sizes self = [Fin (3 / 10), Fin (7 / 10), Fin 1]"
    and k: "return_result self ''for_30%_shock_size'' = Some a"
      "return_result self ''for_70%_shock_size'' = Some b"
      "return_result self ''for_100%_shock_size'' = Some c"
    by (auto simp: holds_results_def)
  from toy_trials [of f d x "Fin (3 / 10)" ?n w] obtain v1 w1 where
    t1: "trials (\<lambda>m. Some m) (toy_table f d x) (Fin (3 / 10)) ?n w = (Inr v1, w1)"
    by blast
  from toy_trials [of f d x "Fin (7 / 10)" ?n w1] obtain v2 w2 where
    t2: "trials (\<lambda>m. Some m) (toy_table f d x) (Fin (7 / 10)) ?n w1 = (Inr v2, w2)"
    by blast
  from toy_trials [of f d x "Fin 1" ?n w2] obtain v3 w3 where
    t3: "trials (\<lambda>m. Some m) (toy_table f d x) (Fin 1) ?n w2 = (Inr v3, w3)"
    by blast
  from run_from_trials [OF sz k t1 t2 t3] show ?thesis
    by blast
qed

lemma toy_run_times:
  assumes "holds_results self m"
  shows "\<exists>self' w'. run_times (\<lambda>m. Some m) (toy_table f d x) k self w = (None, self', w')"
  using assms
proof (induction k arbitrary: self w m)
  case 0
  then show ?case by simp
next
  case (Suc k)
  from toy_run [OF Suc.prems, of f d x w] obtain ret self1 w1 where
    r: "run (\<lambda>m. Some m) (toy_table f d x) self w = (Inr ret, self1, w1)"
    by blast
  from Suc.IH [OF run_holds_results(1) [OF Suc.prems r], of w1] r show ?case
    by simp
qed

section \<open>The claims\<close>

text \<open>
  Claim C1. On a model the constructor built, a shock experiment that returns has its
  effects computed as the specification says: for \<^verbatim>\<open>"Demand"\<close> the matrix is the
  Leontief inverse (what \<^verbatim>\<open>np.linalg.inv\<close> returned for Identity - A), the vector is
  FinalDemand and the benchmark is the sum of TotalOutput; for \<^verbatim>\<open>"Supply"\<close> the matrix
  is Identity - A, the vector is TotalOutput and the benchmark is the sum of
  FinalDemand; and the effect recorded for each sampled sector \<open>s\<close>, in the order of the
  sample, is \<open>1 - sum(matrix \<cdot> v) / benchmark\<close> with \<open>v\<close> the vector whose entry \<open>s\<close> is
  multiplied by \<open>1 - shockSize\<close>.
\<close>

theorem shock_selects_and_computes:
  assumes "Leontief_Model_init linalg_inv df w0 = (Inr self, w)"
    and "shock self shock_type shock_size sample_size w = (Inr res, w')"
  shows "\<exists>sectors w1 li.
           np_random_choice (np_arange 3195) sample_size w = (Inr sectors, w1)
           \<and> linalg_inv (Identity_minus_A df) = Some li
           \<and> (shock_type = ''Demand''
                \<and> Shock_effect_data res =
                    map (spec_effect li (FinalDemand df) (pd_sum (TotalOutput df)) shock_size) sectors
              \<or> shock_type = ''Supply''
                \<and> Shock_effect_data res =
                    map (spec_effect (Identity_minus_A df) (TotalOutput df)
                           (pd_sum (FinalDemand df)) shock_size) sectors)"
proof -
  note m = init_model [OF assms(1)]
  from m(9) have v: "demand self < length (series w)" "output_series self < length (series w)"
    by (simp_all add: model_in_world_def)
  consider (dem) "shock_type = ''Demand''" | (sup) "shock_type = ''Supply''"
    using assms(2) by (auto simp: shock_def split: if_splits)
  then show ?thesis
  proof cases
    case dem
    with assms(2) have "shock_experiment (leontief_inverse self) (demand self) (total_output self)
        shock_size sample_size w = (Inr res, w')"
      by (simp add: shock_def)
    from shock_experiment_effects [OF v(1) this] dem m show ?thesis
      by auto
  next
    case sup
    with assms(2) have "shock_experiment (I_minus_A self) (output_series self)
        (total_final_demand self) shock_size sample_size w = (Inr res, w')"
      by (simp add: shock_def)
    from shock_experiment_effects [OF v(2) this] sup m show ?thesis
      by auto
  qed
qed

theorem shock_selects_and_computes_witness:
  "\<exists>self w res w'.
     Leontief_Model_init (\<lambda>m. Some m) (toy_table 0 1 402) world0 = (Inr self, w)
     \<and> shock self ''Supply'' (Fin (3 / 10)) 300 w = (Inr res, w')
     \<and> (\<exists>sectors w1 li.
           np_random_choice (np_arange 3195) 300 w = (Inr sectors, w1)
           \<and> (\<lambda>m. Some m) (Identity_minus_A (toy_table 0 1 402)) = Some li
           \<and> (''Supply'' = ''Demand''
                \<and> Shock_effect_data res =
                    map (spec_effect li (FinalDemand (toy_table 0 1 402))
                           (pd_sum (TotalOutput (toy_table 0 1 402))) (Fin (3 / 10))) sectors
              \<or> ''Supply'' = ''Supply''
                \<and> Shock_effect_data res =
                    map (spec_effect (Identity_minus_A (toy_table 0 1 402))
                           (TotalOutput (toy_table 0 1 402))
                           (pd_sum (FinalDemand (toy_table 0 1 402))) (Fin (3 / 10))) sectors))"
proof -
  from toy_prepared [of 0 1 402 world0] obtain self w where
    i: "Leontief_Model_init (\<lambda>m. Some m) (toy_table 0 1 402) world0 = (Inr self, w)"
    and r: "list_all (\<lambda>row. length row = 3195) (arrays w ! leontief_inverse self)"
    by blast
  from shock_succeeds [OF i r, of "''Supply''" 300 "Fin (3 / 10)"] obtain res w' where
    s: "shock self ''Supply'' (Fin (3 / 10)) 300 w = (Inr res, w')"
    by auto
  from shock_selects_and_computes [OF i s] i s show ?thesis
    by blast
qed

text \<open>
  Claim C2. For a table the constructor accepts, every entry of the coefficient matrix
  is the quotient FlowMatrix[i,j] / TotalOutput[j] with a NaN quotient replaced by 0:
  it is the exact quotient when both are finite and the total output is not zero, it
  is 0 when a zero flow is divided by a zero total output, and no NaN is left in A.
  Only NaN is replaced (\<^verbatim>\<open>np.isnan\<close>): the quotient of a nonzero flow by a zero
  total output is infinite and stays in A.
\<close>

theorem coefficient_matrix_entries:
  assumes "Leontief_Model_init linalg_inv df w = (Inr self, w')"
    and "i < 3195" and "j < 3195"
  shows "arrays w' ! A self ! i ! j = nan_to_zero (FlowMatrix df ! i ! j / TotalOutput df ! j)
       \<and> (\<forall>f t. FlowMatrix df ! i ! j = Fin f \<and> TotalOutput df ! j = Fin t \<and> t \<noteq> 0
              \<longrightarrow> arrays w' ! A self ! i ! j = Fin (f / t))
       \<and> (FlowMatrix df ! i ! j = Fin 0 \<and> TotalOutput df ! j = Fin 0
              \<longrightarrow> arrays w' ! A self ! i ! j = Fin 0)
       \<and> arrays w' ! A self ! i ! j \<noteq> NaN"
proof -
  have a: "arrays w' ! A self ! i ! j = nan_to_zero (FlowMatrix df ! i ! j / TotalOutput df ! j)"
    using init_model(2) [OF assms(1)] assms(2,3) by (simp add: CoefficientMatrix_def)
  have "nan_to_zero q \<noteq> NaN" for q
    by (simp add: nan_to_zero_def np_isnan_def zero_npfloat_def)
  with a show ?thesis
    by (auto simp: nan_to_zero_def np_isnan_def zero_npfloat_def)
qed

theorem coefficient_matrix_entries_witness:
  "\<exists>self w'.
     Leontief_Model_init uniform_inverse (toy_table 1 (3195 / 402) 6390) world0 = (Inr self, w')
     \<and> (0::nat) < 3195 \<and> (1::nat) < 3195
     \<and> FlowMatrix (toy_table 1 (3195 / 402) 6390) ! 0 ! 1 = Fin 1
     \<and> TotalOutput (toy_table 1 (3195 / 402) 6390) ! 1 = Fin 6390
     \<and> arrays w' ! A self ! 0 ! 1 = Fin (1 / 6390)"
proof -
  have "\<exists>self w'. Leontief_Model_init uniform_inverse (toy_table 1 (3195 / 402) 6390) world0
          = (Inr self, w')
        \<and> list_all (\<lambda>row. length row = 3195) (arrays w' ! leontief_inverse self)"
    by (rule prepared_model [OF toy_well_formed]) (auto simp: uniform_inverse_def list_all_iff)
  then obtain self w' where
    i: "Leontief_Model_init uniform_inverse (toy_table 1 (3195 / 402) 6390) world0 = (Inr self, w')"
    by blast
  have f: "FlowMatrix (toy_table 1 (3195 / 402) 6390) ! 0 ! 1 = Fin 1"
    "TotalOutput (toy_table 1 (3195 / 402) 6390) ! 1 = Fin 6390"
    by (simp_all add: toy_FlowMatrix toy_TotalOutput)
  from coefficient_matrix_entries [OF i, of 0 1] f i show ?thesis
    by auto
qed

text \<open>
  As the specification words the claim (no infinite value in A, and a column of zero
  total output all zero) it does not hold: with every flow 1 and every total output 0
  the table is accepted and A[0,0] is \<open>+Inf\<close>.
\<close>

theorem coefficient_matrix_infinite_counterexample:
  "\<exists>self w'. Leontief_Model_init nan_inverse (toy_table 1 1 0) world0 = (Inr self, w')
     \<and> TotalOutput (toy_table 1 1 0) ! 0 = Fin 0
     \<and> arrays w' ! A self ! 0 ! 0 = PosInf"
proof -
  have "\<exists>self w'. Leontief_Model_init nan_inverse (toy_table 1 1 0) world0 = (Inr self, w')
        \<and> list_all (\<lambda>row. length row = 3195) (arrays w' ! leontief_inverse self)"
    by (rule prepared_model [OF toy_well_formed])
       (auto simp: nan_inverse_def list_all_iff Identity_minus_A_def)
  then obtain self w' where
    i: "Leontief_Model_init nan_inverse (toy_table 1 1 0) world0 = (Inr self, w')"
    by blast
  have "CoefficientMatrix (toy_table 1 1 0) ! 0 ! 0 = PosInf"
    by (simp add: toy_CoefficientMatrix nan_to_zero_def np_isnan_def)
  with init_model(2) [OF i] i show ?thesis
    by (auto simp: toy_TotalOutput)
qed

text \<open>
  Claim C3. With \<open>shockSize = 0\<close> every sampled effect is the value of the unshocked
  economy, \<open>1 - sum(matrix \<cdot> vector) / benchmark\<close>, the same for every sector, for both
  shock types (matrix, vector and benchmark as the shock type selects them). Every
  effect of the experiment is 0 when the computed sum of \<open>matrix \<cdot> vector\<close> and the
  computed benchmark are the same finite number other than zero.
\<close>

theorem zero_shock_gives_baseline:
  assumes "Leontief_Model_init linalg_inv df w0 = (Inr self, w)"
    and "shock self shock_type (Fin 0) sample_size w = (Inr res, w')"
  shows "(\<exists>li. linalg_inv (Identity_minus_A df) = Some li
            \<and> (shock_type = ''Demand''
                 \<and> list_all (\<lambda>e. e = baseline_effect li (FinalDemand df) (pd_sum (TotalOutput df)))
                      (Shock_effect_data res)
               \<or> shock_type = ''Supply''
                 \<and> list_all (\<lambda>e. e = baseline_effect (Identity_minus_A df) (TotalOutput df)
                                      (pd_sum (FinalDemand df)))
                      (Shock_effect_data res)))
       \<and> (\<forall>t. t \<noteq> 0
              \<and> (shock_type = ''Demand''
                   \<and> (\<exists>li. linalg_inv (Identity_minus_A df) = Some li
                          \<and> np_sum (mat_vec li (FinalDemand df)) = Fin t)
                   \<and> pd_sum (TotalOutput df) = Fin t
                 \<or> shock_type = ''Supply''
                   \<and> np_sum (mat_vec (Identity_minus_A df) (TotalOutput df)) = Fin t
                   \<and> pd_sum (FinalDemand df) = Fin t)
              \<longrightarrow> list_all (\<lambda>e. e = Fin 0) (Shock_effect_data res))"
proof -
  from shock_type_cases [OF assms(2)]
  have e: "\<exists>li. linalg_inv (Identity_minus_A df) = Some li
            \<and> (shock_type = ''Demand''
                 \<and> list_all (\<lambda>e. e = baseline_effect li (FinalDemand df) (pd_sum (TotalOutput df)))
                      (Shock_effect_data res)
               \<or> shock_type = ''Supply''
                 \<and> list_all (\<lambda>e. e = baseline_effect (Identity_minus_A df) (TotalOutput df)
                                      (pd_sum (FinalDemand df)))
                      (Shock_effect_data res))"
  proof
    assume d: "shock_type = ''Demand''"
    from shock_demand_effects [OF assms(1) assms(2) [unfolded d]] d show ?thesis
      by (auto simp: spec_effect_zero_shock list_all_iff)
  next
    assume s: "shock_type = ''Supply''"
    from init_model(4) [OF assms(1)] obtain li where "linalg_inv (Identity_minus_A df) = Some li"
      by blast
    with shock_supply_effects [OF assms(1) assms(2) [unfolded s]] s show ?thesis
      by (auto simp: spec_effect_zero_shock list_all_iff)
  qed
  have "list_all (\<lambda>e. e = Fin 0) (Shock_effect_data res)"
    if t: "t \<noteq> 0"
      and c: "shock_type = ''Demand''
                \<and> (\<exists>li. linalg_inv (Identity_minus_A df) = Some li
                       \<and> np_sum (mat_vec li (FinalDemand df)) = Fin t)
                \<and> pd_sum (TotalOutput df) = Fin t
              \<or> shock_type = ''Supply''
                \<and> np_sum (mat_vec (Identity_minus_A df) (TotalOutput df)) = Fin t
                \<and> pd_sum (FinalDemand df) = Fin t"
    for t
    using c
  proof
    assume d: "shock_type = ''Demand''
                \<and> (\<exists>li. linalg_inv (Identity_minus_A df) = Some li
                       \<and> np_sum (mat_vec li (FinalDemand df)) = Fin t)
                \<and> pd_sum (TotalOutput df) = Fin t"
    then obtain li where li: "linalg_inv (Identity_minus_A df) = Some li"
      and sm: "np_sum (mat_vec li (FinalDemand df)) = Fin t"
      by blast
    from baseline_effect_zero [OF sm t] d
    have "baseline_effect li (FinalDemand df) (pd_sum (TotalOutput df)) = Fin 0"
      by simp
    with e li d show ?thesis
      by auto
  next
    assume s: "shock_type = ''Supply''
                \<and> np_sum (mat_vec (Identity_minus_A df) (TotalOutput df)) = Fin t
                \<and> pd_sum (FinalDemand df) = Fin t"
    then have sm: "np_sum (mat_vec (Identity_minus_A df) (TotalOutput df)) = Fin t"
      by blast
    from baseline_effect_zero [OF sm t] s
    have "baseline_effect (Identity_minus_A df) (TotalOutput df) (pd_sum (FinalDemand df)) = Fin 0"
      by simp
    with e s show ?thesis
      by auto
  qed
  with e show ?thesis
    by blast
qed

theorem zero_shock_gives_baseline_witness:
  "\<exists>self w res w'.
     Leontief_Model_init (\<lambda>m. Some m) (toy_table 0 1 402) world0 = (Inr self, w)
     \<and> shock self ''Supply'' (Fin 0) 300 w = (Inr res, w')
     \<and> (1284390::real) \<noteq> 0
     \<and> np_sum (mat_vec (Identity_minus_A (toy_table 0 1 402)) (TotalOutput (toy_table 0 1 402)))
         = Fin 1284390
     \<and> pd_sum (FinalDemand (toy_table 0 1 402)) = Fin 1284390
     \<and> list_all (\<lambda>e. e = baseline_effect (Identity_minus_A (toy_table 0 1 402))
                          (TotalOutput (toy_table 0 1 402))
                          (pd_sum (FinalDemand (toy_table 0 1 402))))
         (Shock_effect_data res)
     \<and> list_all (\<lambda>e. e = Fin 0) (Shock_effect_data res)"
proof -
  from toy_prepared [of 0 1 402 world0] obtain self w where
    i: "Leontief_Model_init (\<lambda>m. Some m) (toy_table 0 1 402) world0 = (Inr self, w)"
    and r: "list_all (\<lambda>row. length row = 3195) (arrays w ! leontief_inverse self)"
    by blast
  from shock_succeeds [OF i r, of "''Supply''" 300 "Fin 0"] obtain res w' where
    s: "shock self ''Supply'' (Fin 0) 300 w = (Inr res, w')"
    by auto
  have p: "np_sum (mat_vec (Identity_minus_A (toy_table 0 1 402)) (TotalOutput (toy_table 0 1 402)))
             = Fin 1284390"
    "pd_sum (FinalDemand (toy_table 0 1 402)) = Fin 1284390"
    by (simp_all add: toy_TotalOutput toy_FinalDemand toy_mat_vec np_sum_replicate
          pd_sum_replicate)
  from zero_shock_gives_baseline [OF i s] p i s show ?thesis
    by auto
qed

text \<open>
  The effect of no shock is not 0 for every accepted table: with no intermediate flows,
  final demand 402 and total output 1 in every sector, a supply shock of size 0 has the
  effect \<open>1 - 3195 / (3195 * 402) = 401/402\<close>.
\<close>

theorem zero_shock_effect_counterexample:
  "\<exists>self w res w'.
     Leontief_Model_init (\<lambda>m. Some m) (toy_table 0 1 1) world0 = (Inr self, w)
     \<and> shock self ''Supply'' (Fin 0) 1 w = (Inr res, w')
     \<and> Shock_effect_data res = [Fin (401 / 402)]"
proof -
  from toy_prepared [of 0 1 1 world0] obtain self w where
    i: "Leontief_Model_init (\<lambda>m. Some m) (toy_table 0 1 1) world0 = (Inr self, w)"
    and r: "list_all (\<lambda>row. length row = 3195) (arrays w ! leontief_inverse self)"
    by blast
  from shock_succeeds [OF i r, of "''Supply''" 1 "Fin 0"] obtain res w' where
    s: "shock self ''Supply'' (Fin 0) 1 w = (Inr res, w')"
    by auto
  have b: "baseline_effect (Identity_minus_A (toy_table 0 1 1)) (TotalOutput (toy_table 0 1 1))
             (pd_sum (FinalDemand (toy_table 0 1 1))) = Fin (401 / 402)"
    by (simp add: toy_supply_baseline_general one_npfloat_def minus_npfloat_def)
  from shock_supply_effects [OF i s] obtain sectors w1 where
    c: "np_random_choice (np_arange 3195) 1 w = (Inr sectors, w1)"
    and e: "Shock_effect_data res =
              map (spec_effect (Identity_minus_A (toy_table 0 1 1)) (TotalOutput (toy_table 0 1 1))
                     (pd_sum (FinalDemand (toy_table 0 1 1))) (Fin 0)) sectors"
    by blast
  have "np_random_choice (np_arange 3195) 1 w =
          (Inr (take (nat 1) (fst (permutation 3195 w))), w\<lparr>rng_pos := rng_pos w + (3195 - 1)\<rparr>)"
    by (rule np_random_choice_ok) simp_all
  with c have "length sectors = 1"
    using permutation_props(3) [of 3195 w] by auto
  then obtain s0 where "sectors = [s0]"
    by (cases sectors) auto
  with e b i s show ?thesis
    by (auto simp: spec_effect_zero_shock)
qed

text \<open>
  Claim C4. For every shock experiment with sample size \<open>k\<close>, \<open>1 \<le> k \<le> 3195\<close>, the
  draw \<^verbatim>\<open>np.random.choice(np.arange(3195), replace=False, size=k)\<close> succeeds and
  returns \<open>k\<close> sector indices that are pairwise distinct and all lie in \<open>[0, 3195)\<close>.
\<close>

theorem sample_distinct_in_range:
  assumes "1 \<le> k" and "k \<le> 3195"
  shows "\<exists>sectors w'. np_random_choice (np_arange 3195) k w = (Inr sectors, w')
           \<and> int (length sectors) = k \<and> distinct sectors \<and> (\<forall>s \<in> set sectors. s < 3195)"
proof -
  let ?p = "fst (permutation 3195 w)"
  have "np_random_choice (np_arange 3195) k w =
          (Inr (take (nat k) ?p), w\<lparr>rng_pos := rng_pos w + (3195 - 1)\<rparr>)"
    by (rule np_random_choice_ok) (use assms in auto)
  moreover have "int (length (take (nat k) ?p)) = k"
    using assms permutation_props(3) [of 3195 w] by simp
  moreover have "distinct (take (nat k) ?p)"
    using permutation_props(1) [of 3195 w] by simp
  moreover have "\<forall>s \<in> set (take (nat k) ?p). s < 3195"
    using permutation_props(2) [of 3195 w] by (auto dest: in_set_takeD)
  ultimately show ?thesis by blast
qed

theorem sample_distinct_in_range_witness:
  "(1::int) \<le> 300 \<and> (300::int) \<le> 3195 \<and>
   (\<exists>sectors w'. np_random_choice (np_arange 3195) 300 world0 = (Inr sectors, w')
      \<and> int (length sectors) = 300 \<and> distinct sectors \<and> (\<forall>s \<in> set sectors. s < 3195))"
  using sample_distinct_in_range [of 300 world0] by simp

text \<open>
  Claim C5. A first \<^verbatim>\<open>run\<close> on a new object with \<open>r \<ge> 0\<close> replications that returns,
  returns a mapping with exactly the three keys of the shock sizes 0.3, 0.7 and 1.0, and
  each key maps to exactly \<open>r\<close> values: the 99th-percentile statistics of the \<open>r\<close>
  replications run for that shock size, in replication order (the replications for
  0.3 first, then those for 0.7, then those for 1.0).
\<close>

theorem run_returns_three_sequences:
  assumes "run linalg_inv df (ReproducibleResult_init r) w = (Inr ret, self', w')"
    and "0 \<le> r"
  shows "dom ret = {''for_30%_shock_size'', ''for_70%_shock_size'', ''for_100%_shock_size''}
       \<and> card (dom ret) = 3
       \<and> (\<exists>v1 v2 v3 w1 w2.
             trials linalg_inv df (Fin (3 / 10)) (nat r) w = (Inr v1, w1)
           \<and> trials linalg_inv df (Fin (7 / 10)) (nat r) w1 = (Inr v2, w2)
           \<and> trials linalg_inv df (Fin 1) (nat r) w2 = (Inr v3, w')
           \<and> ret ''for_30%_shock_size'' = Some v1 \<and> ret ''for_70%_shock_size'' = Some v2
           \<and> ret ''for_100%_shock_size'' = Some v3
           \<and> int (length v1) = r \<and> int (length v2) = r \<and> int (length v3) = r)"
proof -
  let ?self = "ReproducibleResult_init r"
  have sz: "shock_sizes ?self = [Fin (3 / 10), Fin (7 / 10), Fin 1]"
    and k: "return_result ?self ''for_30%_shock_size'' = Some []"
      "return_result ?self ''for_70%_shock_size'' = Some []"
      "return_result ?self ''for_100%_shock_size'' = Some []"
    and n: "nat (number_of_replications ?self) = nat r"
    by (simp_all add: ReproducibleResult_init_def)
  from run_succeeded [OF sz k assms(1)] obtain v1 v2 v3 w1 w2 where
    t: "trials linalg_inv df (Fin (3 / 10)) (nat r) w = (Inr v1, w1)"
      "trials linalg_inv df (Fin (7 / 10)) (nat r) w1 = (Inr v2, w2)"
      "trials linalg_inv df (Fin 1) (nat r) w2 = (Inr v3, w')"
    and ret: "ret = (return_result ?self)(''for_30%_shock_size'' \<mapsto> [] @ v1,
                       ''for_70%_shock_size'' \<mapsto> [] @ v2, ''for_100%_shock_size'' \<mapsto> [] @ v3)"
    unfolding n by blast
  have d: "dom ret = {''for_30%_shock_size'', ''for_70%_shock_size'', ''for_100%_shock_size''}"
    unfolding ret by (auto simp: ReproducibleResult_init_def split: if_splits)
  have c: "card {''for_30%_shock_size'', ''for_70%_shock_size'', ''for_100%_shock_size''} = 3"
    by simp
  have r: "ret ''for_30%_shock_size'' = Some v1" "ret ''for_70%_shock_size'' = Some v2"
    "ret ''for_100%_shock_size'' = Some v3"
    by (simp_all add: ret)
  have l: "int (length v1) = r" "int (length v2) = r" "int (length v3) = r"
    using trials_length [OF t(1)] trials_length [OF t(2)] trials_length [OF t(3)] assms(2)
    by simp_all
  from d c t r l show ?thesis
    by (simp only: simp_thms) blast
qed

theorem run_returns_three_sequences_witness:
  "\<exists>ret self' w'.
     run (\<lambda>m. Some m) (toy_table 0 1 402) (ReproducibleResult_init 5) world0 = (Inr ret, self', w')
     \<and> (0::int) \<le> 5
     \<and> dom ret = {''for_30%_shock_size'', ''for_70%_shock_size'', ''for_100%_shock_size''}
     \<and> card (dom ret) = 3
     \<and> (\<exists>v1 v2 v3. ret ''for_30%_shock_size'' = Some v1 \<and> ret ''for_70%_shock_size'' = Some v2
           \<and> ret ''for_100%_shock_size'' = Some v3
           \<and> length v1 = 5 \<and> length v2 = 5 \<and> length v3 = 5)"
proof -
  from toy_run [OF init_holds_results, of 0 1 402 5 world0] obtain ret self' w' where
    r: "run (\<lambda>m. Some m) (toy_table 0 1 402) (ReproducibleResult_init 5) world0 = (Inr ret, self', w')"
    by blast
  from run_returns_three_sequences [OF r] obtain v1 v2 v3 where
    "dom ret = {''for_30%_shock_size'', ''for_70%_shock_size'', ''for_100%_shock_size''}"
    "card (dom ret) = 3"
    "ret ''for_30%_shock_size'' = Some v1" "ret ''for_70%_shock_size'' = Some v2"
    "ret ''for_100%_shock_size'' = Some v3"
    "int (length v1) = 5" "int (length v2) = 5" "int (length v3) = 5"
    by auto
  with r show ?thesis
    by auto
qed

text \<open>
  Claim C6. For every sequence of finite effect values a shock experiment returns (it
  is not empty), the statistics are finite and ordered: the median is at most the
  upper 5% quantile, which is at most the upper 1% quantile, and the median lies
  between the minimum and the maximum of the raw effects.
\<close>

theorem percentiles_ordered:
  assumes "shock self shock_type shock_size sample_size w = (Inr res, w')"
    and "Shock_effect_data res = map Fin rs"
  shows "\<exists>m u5 u1. Median res = Fin m \<and> Upper_5_quantile res = Fin u5
           \<and> Upper_1_quantile res = Fin u1
           \<and> m \<le> u5 \<and> u5 \<le> u1 \<and> Min (set rs) \<le> m \<and> m \<le> Max (set rs)
           \<and> float_le (Median res) (Upper_1_quantile res)"
proof -
  from shock_statistics [OF assms(1)] assms(2) have s: "statistics (map Fin rs) = Inr res"
    by simp
  note q = statistics_quantiles [OF s]
  have ne: "rs \<noteq> []"
    using q(1) by (auto simp: quantile_empty)
  define n where "n = real (length rs - 1)"
  have n0: "0 \<le> n" by (simp add: n_def)
  have m: "Median res = Fin (interp (sort rs) (n * (1 / 2)))"
    using q(1) np_quantile_Fin [OF ne, of "1 / 2"] by (simp add: n_def)
  have u5: "Upper_5_quantile res = Fin (interp (sort rs) (n * (95 / 100)))"
    using q(2) np_quantile_Fin [OF ne, of "95 / 100"] by (simp add: n_def)
  have u1: "Upper_1_quantile res = Fin (interp (sort rs) (n * (99 / 100)))"
    using q(3) np_quantile_Fin [OF ne, of "99 / 100"] by (simp add: n_def)
  have srt: "sorted (sort rs)" "sort rs \<noteq> []"
    using ne by (simp_all, metis length_sort length_0_conv)
  have top: "n * (99 / 100) \<le> real (length (sort rs) - 1)"
    using n0 by (simp add: n_def)
  have a: "interp (sort rs) (n * (1 / 2)) \<le> interp (sort rs) (n * (95 / 100))"
    by (rule interp_mono [OF srt]) (use n0 in \<open>simp_all add: n_def\<close>)
  have b: "interp (sort rs) (n * (95 / 100)) \<le> interp (sort rs) (n * (99 / 100))"
    by (rule interp_mono [OF srt]) (use n0 in \<open>simp_all add: n_def\<close>)
  have c: "Min (set rs) \<le> interp (sort rs) (n * (1 / 2))"
    "interp (sort rs) (n * (1 / 2)) \<le> Max (set rs)"
    by (rule interp_between_min_max [OF ne], use n0 in \<open>simp_all add: n_def\<close>)+
  from a b have "float_le (Median res) (Upper_1_quantile res)"
    by (simp add: m u1)
  with m u5 u1 a b c show ?thesis
    by blast
qed

theorem percentiles_ordered_witness:
  "\<exists>self w res w' rs.
     Leontief_Model_init (\<lambda>m. Some m) (toy_table 0 1 402) world0 = (Inr self, w)
     \<and> shock self ''Supply'' (Fin (3 / 10)) 300 w = (Inr res, w')
     \<and> Shock_effect_data res = map Fin rs
     \<and> (\<exists>m u5 u1. Median res = Fin m \<and> Upper_5_quantile res = Fin u5
           \<and> Upper_1_quantile res = Fin u1
           \<and> m \<le> u5 \<and> u5 \<le> u1 \<and> Min (set rs) \<le> m \<and> m \<le> Max (set rs)
           \<and> float_le (Median res) (Upper_1_quantile res))"
proof -
  from toy_prepared [of 0 1 402 world0] obtain self w where
    i: "Leontief_Model_init (\<lambda>m. Some m) (toy_table 0 1 402) world0 = (Inr self, w)"
    and r: "list_all (\<lambda>row. length row = 3195) (arrays w ! leontief_inverse self)"
    by blast
  from shock_succeeds [OF i r, of "''Supply''" 300 "Fin (3 / 10)"] obtain res w' where
    s: "shock self ''Supply'' (Fin (3 / 10)) 300 w = (Inr res, w')"
    by auto
  from shock_supply_effects [OF i s] obtain sectors w1 where
    c: "np_random_choice (np_arange 3195) 300 w = (Inr sectors, w1)"
    and e: "Shock_effect_data res =
              map (spec_effect (Identity_minus_A (toy_table 0 1 402))
                     (TotalOutput (toy_table 0 1 402))
                     (pd_sum (FinalDemand (toy_table 0 1 402))) (Fin (3 / 10))) sectors"
    by blast
  from sectors_in_range(1) [OF c] have rng: "\<forall>s \<in> set sectors. s < 3195"
    by simp
  define rs where
    "rs = map (\<lambda>s. 1 - sum_list ((replicate 3195 (402::real))[s := 402 * (1 - 3 / 10)])
                       / (3195 * (402 * 1))) sectors"
  have "Shock_effect_data res = map Fin rs"
    unfolding e toy_supply_effects_finite [OF rng] rs_def
    by (simp add: one_npfloat_def minus_npfloat_def)
  with percentiles_ordered [OF s this] i s show ?thesis
    by blast
qed

text \<open>
  The effects need not be finite, and then the order fails: on the table of zeros every
  benchmark is 0, every effect is \<open>1 - 0/0\<close>, which is NaN, so are the median and the
  upper 1% quantile, and NaN \<open>\<le>\<close> NaN is false.
\<close>

theorem percentiles_nan_counterexample:
  "\<exists>self w res w'.
     Leontief_Model_init (\<lambda>m. Some m) (toy_table 0 0 0) world0 = (Inr self, w)
     \<and> shock self ''Supply'' (Fin (3 / 10)) 300 w = (Inr res, w')
     \<and> Shock_effect_data res = replicate 300 NaN
     \<and> Median res = NaN \<and> Upper_1_quantile res = NaN
     \<and> \<not> float_le (Median res) (Upper_1_quantile res)"
proof -
  from toy_prepared [of 0 0 0 world0] obtain self w where
    i: "Leontief_Model_init (\<lambda>m. Some m) (toy_table 0 0 0) world0 = (Inr self, w)"
    and r: "list_all (\<lambda>row. length row = 3195) (arrays w ! leontief_inverse self)"
    by blast
  from shock_succeeds [OF i r, of "''Supply''" 300 "Fin (3 / 10)"] obtain res w' where
    s: "shock self ''Supply'' (Fin (3 / 10)) 300 w = (Inr res, w')"
    by auto
  from shock_supply_effects [OF i s] obtain sectors w1 where
    c: "np_random_choice (np_arange 3195) 300 w = (Inr sectors, w1)"
    and e: "Shock_effect_data res =
              map (spec_effect (Identity_minus_A (toy_table 0 0 0))
                     (TotalOutput (toy_table 0 0 0))
                     (pd_sum (FinalDemand (toy_table 0 0 0))) (Fin (3 / 10))) sectors"
    by blast
  have sr: "\<forall>s \<in> set sectors. s < 3195" "length sectors = nat 300"
    by (rule sectors_in_range [OF c], simp)+
  have "Shock_effect_data res = map (\<lambda>s. NaN) sectors"
    unfolding e toy_supply_effects_finite [OF sr(1)]
    by (simp add: one_npfloat_def minus_npfloat_def replicate_update_same sum_list_replicate)
  then have d: "Shock_effect_data res = replicate 300 NaN"
    using sr(2) by (simp add: map_replicate_const)
  then have "NaN \<in> set (Shock_effect_data res)"
    by simp
  from np_quantile_NaN [OF this] statistics_quantiles [OF shock_statistics [OF s]]
  have "Median res = NaN" "Upper_1_quantile res = NaN"
    by simp_all
  with i s d show ?thesis
    by auto
qed

text \<open>
  Claim C7. A shock experiment, whatever it returns, leaves every object of the model as
  it was: the FinalDemand and TotalOutput Series and the coefficient matrix, Identity - A
  and the Leontief inverse hold the same entries before and after, as does every other
  Series and array that existed before the call. Each iteration writes only into the
  copy it has just made, which is a new Series. (The two benchmark sums are numbers
  stored in the object; \<^verbatim>\<open>shock\<close> assigns to no attribute.)
\<close>

theorem shock_leaves_model_unchanged:
  assumes "model_in_world self w"
    and "shock self shock_type shock_size sample_size w = (r, w')"
  shows "series w' ! demand self = series w ! demand self
       \<and> series w' ! output_series self = series w ! output_series self
       \<and> arrays w' ! io_matrix self = arrays w ! io_matrix self
       \<and> arrays w' ! A self = arrays w ! A self
       \<and> arrays w' ! I_minus_A self = arrays w ! I_minus_A self
       \<and> arrays w' ! leontief_inverse self = arrays w ! leontief_inverse self
       \<and> take (length (series w)) (series w') = series w
       \<and> arrays w' = arrays w"
proof -
  from shock_frame [OF assms(2)]
  have s: "take (length (series w)) (series w') = series w" and a: "arrays w' = arrays w"
    by simp_all
  from assms(1) have v: "demand self < length (series w)" "output_series self < length (series w)"
    by (simp_all add: model_in_world_def)
  have "series w' ! demand self = series w ! demand self"
    by (rule take_nth_eq [OF s v(1)])
  moreover have "series w' ! output_series self = series w ! output_series self"
    by (rule take_nth_eq [OF s v(2)])
  ultimately show ?thesis using s a by simp
qed

theorem shock_leaves_model_unchanged_witness:
  "\<exists>self w res w'.
     Leontief_Model_init (\<lambda>m. Some m) (toy_table 0 1 402) world0 = (Inr self, w)
     \<and> model_in_world self w
     \<and> shock self ''Demand'' (Fin (3 / 10)) 300 w = (Inr res, w')
     \<and> series w' ! demand self = FinalDemand (toy_table 0 1 402)
     \<and> series w' ! output_series self = TotalOutput (toy_table 0 1 402)
     \<and> arrays w' ! A self = CoefficientMatrix (toy_table 0 1 402)
     \<and> take (length (series w)) (series w') = series w
     \<and> length (series w') = length (series w) + 300"
proof -
  from toy_prepared [of 0 1 402 world0] obtain self w where
    i: "Leontief_Model_init (\<lambda>m. Some m) (toy_table 0 1 402) world0 = (Inr self, w)"
    and r: "list_all (\<lambda>row. length row = 3195) (arrays w ! leontief_inverse self)"
    by blast
  note m = init_model [OF i]
  from shock_succeeds [OF i r, of "''Demand''" 300 "Fin (3 / 10)"] obtain res w' where
    s: "shock self ''Demand'' (Fin (3 / 10)) 300 w = (Inr res, w')"
    by auto
  from shock_allocates [OF s] have len: "length (series w') = length (series w) + 300"
    by simp
  from shock_leaves_model_unchanged [OF m(9) s]
  have u: "series w' ! demand self = series w ! demand self"
    "series w' ! output_series self = series w ! output_series self"
    "arrays w' ! A self = arrays w ! A self"
    "take (length (series w)) (series w') = series w"
    by simp_all
  have "series w' ! demand self = FinalDemand (toy_table 0 1 402)"
    "series w' ! output_series self = TotalOutput (toy_table 0 1 402)"
    "arrays w' ! A self = CoefficientMatrix (toy_table 0 1 402)"
    by (simp_all only: u m)
  with i s m(9) u(4) len show ?thesis
    by blast
qed

text \<open>
  Claim C8. A sample size above 3195 or below 0 makes the call fail before anything is
  sampled: no result is returned and the world, the random generator included, is as
  before. With a valid shock type the error is the \<^verbatim>\<open>ValueError\<close> of
  \<^verbatim>\<open>np.random.choice\<close> (larger sample than population, or negative dimensions);
  with any other shock type the assertion on the shock type, which comes first, fails.
\<close>

theorem sample_size_outside_bounds_rejected:
  assumes "sample_size < 0 \<or> 3195 < sample_size"
  shows "(\<exists>e. shock self shock_type shock_size sample_size w = (Inl e, w))
       \<and> (shock_type = ''Demand'' \<or> shock_type = ''Supply'' \<longrightarrow>
            shock self shock_type shock_size sample_size w =
              (Inl (if 3195 < sample_size then ValueError_larger_sample
                    else ValueError_negative_dimensions), w))"
  using assms
  by (auto simp: shock_def shock_experiment_def np_random_choice_def np_arange_def)

theorem sample_size_outside_bounds_rejected_witness:
  "\<exists>self w. Leontief_Model_init (\<lambda>m. Some m) (toy_table 0 1 402) world0 = (Inr self, w)
     \<and> ((3196::int) < 0 \<or> (3195::int) < 3196)
     \<and> ((- 1::int) < 0 \<or> (3195::int) < - 1)
     \<and> shock self ''Demand'' (Fin (3 / 10)) 3196 w = (Inl ValueError_larger_sample, w)
     \<and> shock self ''Supply'' (Fin (3 / 10)) (- 1) w = (Inl ValueError_negative_dimensions, w)"
proof -
  from toy_prepared [of 0 1 402 world0] obtain self w where
    i: "Leontief_Model_init (\<lambda>m. Some m) (toy_table 0 1 402) world0 = (Inr self, w)"
    by blast
  from sample_size_outside_bounds_rejected [of 3196 self "''Demand''" "Fin (3 / 10)" w]
    sample_size_outside_bounds_rejected [of "- 1" self "''Supply''" "Fin (3 / 10)" w]
    i show ?thesis
    by auto
qed

text \<open>
  The sample size 0 is not refused: the permutation is drawn (3194 raw outputs of the
  generator are consumed), the loop runs over no sector, and the call fails only in
  the statistics of the empty list of effects.
\<close>

theorem empty_sample_counterexample:
  "\<exists>self w. Leontief_Model_init (\<lambda>m. Some m) (toy_table 0 1 402) world0 = (Inr self, w)
     \<and> shock self ''Demand'' (Fin (3 / 10)) 0 w =
         (Inl IndexError, w\<lparr>rng_pos := rng_pos w + 3194\<rparr>)"
proof -
  from toy_prepared [of 0 1 402 world0] obtain self w where
    i: "Leontief_Model_init (\<lambda>m. Some m) (toy_table 0 1 402) world0 = (Inr self, w)"
    by blast
  then show ?thesis
    by (auto simp: shock_def shock_experiment_zero)
qed

text \<open>
  Claim C9. A shock type other than \<^verbatim>\<open>"Demand"\<close> and \<^verbatim>\<open>"Supply"\<close> fails the
  assertion \<^verbatim>\<open>"Unknown shock type ..."\<close> before anything is computed: no result is
  returned, and nothing is sampled, allocated or written.
\<close>

theorem unknown_shock_type_fails:
  assumes "shock_type \<noteq> ''Demand''" and "shock_type \<noteq> ''Supply''"
  shows "shock self shock_type shock_size sample_size w =
           (Inl (AssertionError (''Unknown shock type '' @ shock_type)), w)"
  using assms by (simp add: shock_def)

theorem unknown_shock_type_fails_witness:
  "''Unknown'' \<noteq> ''Demand'' \<and> ''Unknown'' \<noteq> ''Supply''
   \<and> (\<exists>self w. Leontief_Model_init (\<lambda>m. Some m) (toy_table 0 1 402) world0 = (Inr self, w)
        \<and> shock self ''Unknown'' (Fin (3 / 10)) 300 w =
            (Inl (AssertionError ''Unknown shock type Unknown''), w))"
proof -
  from toy_prepared [of 0 1 402 world0] obtain self w where
    i: "Leontief_Model_init (\<lambda>m. Some m) (toy_table 0 1 402) world0 = (Inr self, w)"
    by blast
  from unknown_shock_type_fails [of "''Unknown''" self "Fin (3 / 10)" 300 w] i show ?thesis
    by auto
qed

text \<open>
  Claim C10. \<^verbatim>\<open>run\<close> appends to the lists the constructor made: when \<open>k\<close> calls of
  \<^verbatim>\<open>run\<close> on a new object with \<open>r\<close> replications have returned, every key holds
  \<open>k * r\<close> values, and a further call that returns gives, under every key, these
  values followed by \<open>r\<close> new ones: \<open>(k + 1) * r\<close> values after the call number \<open>k + 1\<close>.
  (For a negative \<open>r\<close> no replication is run: \<open>nat r\<close> is 0.)
\<close>

theorem run_appends:
  assumes "run_times linalg_inv df k (ReproducibleResult_init r) w = (None, self, w1)"
    and "run linalg_inv df self w1 = (Inr ret, self', w2)"
    and "key \<in> {''for_30%_shock_size'', ''for_70%_shock_size'', ''for_100%_shock_size''}"
  shows "\<exists>old new. return_result self key = Some old \<and> length old = k * nat r
           \<and> ret key = Some (old @ new) \<and> length new = nat r
           \<and> length (old @ new) = (k + 1) * nat r
           \<and> return_result self' = ret"
proof -
  from run_times_holds_results [OF init_holds_results assms(1)]
  have h: "holds_results self (k * nat r)" and n: "number_of_replications self = r"
    by (simp_all add: ReproducibleResult_init_def)
  from run_holds_results(4) [OF h assms(2) assms(3)] obtain old new where
    "return_result self key = Some old" "length old = k * nat r"
    "ret key = Some (old @ new)" "length new = nat r"
    unfolding n by blast
  moreover have "return_result self' = ret"
    using run_holds_results(3) [OF h assms(2)] by simp
  ultimately show ?thesis
    by auto
qed

theorem run_appends_witness:
  "\<exists>self w1 ret self' w2.
     run_times (\<lambda>m. Some m) (toy_table 0 1 402) 2 (ReproducibleResult_init 5) world0 = (None, self, w1)
     \<and> run (\<lambda>m. Some m) (toy_table 0 1 402) self w1 = (Inr ret, self', w2)
     \<and> ''for_70%_shock_size'' \<in> {''for_30%_shock_size'', ''for_70%_shock_size'', ''for_100%_shock_size''}
     \<and> (\<exists>old new. return_result self ''for_70%_shock_size'' = Some old \<and> length old = 10
           \<and> ret ''for_70%_shock_size'' = Some (old @ new) \<and> length new = 5
           \<and> length (old @ new) = 15)"
proof -
  from toy_run_times [OF init_holds_results, of 0 1 402 2 5 world0] obtain self w1 where
    t: "run_times (\<lambda>m. Some m) (toy_table 0 1 402) 2 (ReproducibleResult_init 5) world0 = (None, self, w1)"
    by blast
  from run_times_holds_results [OF init_holds_results t] have "holds_results self (0 + 2 * nat 5)"
    by (simp add: ReproducibleResult_init_def)
  from toy_run [OF this, of 0 1 402 w1] obtain ret self' w2 where
    r: "run (\<lambda>m. Some m) (toy_table 0 1 402) self w1 = (Inr ret, self', w2)"
    by blast
  from run_appends [OF t r, of "''for_70%_shock_size''"] obtain old new where
    "return_result self ''for_70%_shock_size'' = Some old" "length old = 2 * nat 5"
    "ret ''for_70%_shock_size'' = Some (old @ new)" "length new = nat 5"
    by auto
  with t r show ?thesis
    by auto
qed

end
